(* ===== verification/Prelude.thy ===== *)
theory Prelude
  imports Main "HOL-Library.Monad_Syntax" "HOL-Library.Sublist"
begin

text \<open>
  Shared vocabulary of the development: bytes and byte strings, the machine arithmetic of
  \<open>size_t\<close>, and the memory primitives of the C model.

  A C object (a \<open>char\<close> array on the stack, in a struct or from \<open>malloc\<close>) is the list of its
  bytes, and a pointer into it is an offset. Every access goes through \<open>rd\<close>, \<open>rd_bytes\<close>,
  \<open>blit\<close> or \<open>fill\<close>, which are \<open>None\<close> when the access leaves the object: in the whole
  development a result \<open>None\<close> stands for undefined behaviour (or, in the theories that talk to
  the kernel, for a loop that never ends), and a result \<open>Some r\<close> for a run that returns \<open>r\<close>.
  A lemma of the form \<open>f x = Some r\<close> therefore states memory safety and termination together
  with the result.
\<close>

named_theorems mem_simps \<open>memory accesses whose bounds are known\<close>
named_theorems clib_simps \<open>the C library functions on NUL-terminated objects\<close>
named_theorems trace_simps \<open>observables of system call traces\<close>

section \<open>Bytes\<close>

type_synonym bytes = "char list"

abbreviation NUL :: char where "NUL \<equiv> CHR 0x00"
abbreviation HTAB :: char where "HTAB \<equiv> CHR 0x09"
abbreviation LF :: char where "LF \<equiv> CHR 0x0A"
abbreviation CR :: char where "CR \<equiv> CHR 0x0D"
abbreviation SP :: char where "SP \<equiv> CHR 0x20"
abbreviation CRLF :: bytes where "CRLF \<equiv> [CR, LF]"

text \<open>
  \<open>uchar\<close> reads a byte as \<open>unsigned char\<close>, \<open>schar\<close> as the plain \<open>char\<close> of the Linux x86-64
  ABI, which is signed.
\<close>

definition uchar :: "char \<Rightarrow> int" where
  "uchar c = int (of_char c)"

definition schar :: "char \<Rightarrow> int" where
  "schar c = (if uchar c < 128 then uchar c else uchar c - 256)"

lemma uchar_bounds: "0 \<le> uchar c" "uchar c < 256"
  using nat_of_char_less_256 [of c] by (simp_all add: uchar_def)

lemma uchar_inject [simp]: "uchar c = uchar d \<longleftrightarrow> c = d"
  by (simp add: uchar_def)

lemma schar_inject [simp]: "schar c = schar d \<longleftrightarrow> c = d"
  using uchar_bounds [of c] uchar_bounds [of d] by (auto simp: schar_def split: if_splits)

section \<open>The arithmetic of size\_t\<close>

text \<open>\<open>size_t\<close> is 64 bits wide on the target; its operations wrap around.\<close>

definition size_add :: "nat \<Rightarrow> nat \<Rightarrow> nat" where
  "size_add a b = (a + b) mod 2 ^ 64"

definition size_sub :: "nat \<Rightarrow> nat \<Rightarrow> nat" where
  "size_sub a b = nat ((int a - int b) mod 2 ^ 64)"

definition size_ok :: "nat \<Rightarrow> bool" where
  "size_ok a \<longleftrightarrow> a < 2 ^ 64"

lemma size_add_exact [mem_simps]: "size_ok (a + b) \<Longrightarrow> size_add a b = a + b"
  by (simp add: size_add_def size_ok_def)

lemma size_sub_exact [mem_simps]: "b \<le> a \<Longrightarrow> size_ok a \<Longrightarrow> size_sub a b = a - b"
  by (simp add: size_sub_def size_ok_def nat_diff_distrib flip: of_nat_diff)

lemma size_ok_mono: "size_ok b \<Longrightarrow> a \<le> b \<Longrightarrow> size_ok a"
  by (simp add: size_ok_def)

section \<open>Memory objects\<close>

definition rd :: "bytes \<Rightarrow> nat \<Rightarrow> char option" where
  "rd m p = (if p < length m then Some (m ! p) else None)"

text \<open>\<open>rd_bytes m p n\<close>: the \<open>n\<close> bytes a \<open>memcpy\<close> reads at offset \<open>p\<close> of \<open>m\<close>.\<close>

definition rd_bytes :: "bytes \<Rightarrow> nat \<Rightarrow> nat \<Rightarrow> bytes option" where
  "rd_bytes m p n = (if p + n \<le> length m then Some (take n (drop p m)) else None)"

text \<open>\<open>blit m p bs\<close>: the object \<open>m\<close> after a \<open>memcpy\<close> or \<open>memmove\<close> of \<open>bs\<close> to offset \<open>p\<close>.\<close>

definition blit :: "bytes \<Rightarrow> nat \<Rightarrow> bytes \<Rightarrow> bytes option" where
  "blit m p bs =
     (if p + length bs \<le> length m then Some (take p m @ bs @ drop (p + length bs) m) else None)"

text \<open>
  \<open>fill cap bs\<close>: the initialised part of an array of \<open>cap\<close> bytes after \<open>bs\<close> was written at its
  start; \<open>cstr\<close> is what a reader of that array as a C string sees.
\<close>

definition fill :: "nat \<Rightarrow> bytes \<Rightarrow> bytes option" where
  "fill cap bs = (if length bs \<le> cap then Some bs else None)"

definition cstr :: "bytes \<Rightarrow> bytes" where
  "cstr bs = takeWhile (\<lambda>c. c \<noteq> NUL) bs"

lemma rd_Some_iff: "rd m p = Some c \<longleftrightarrow> p < length m \<and> m ! p = c"
  by (auto simp: rd_def)

lemma rd_append [mem_simps]:
  "rd (xs @ ys) (length xs + i) = rd ys i"
  "rd (xs @ ys) (length xs) = rd ys 0"
  by (simp_all add: rd_def nth_append)

lemma rd_Cons [mem_simps]:
  "rd (x # xs) 0 = Some x"
  "rd (x # xs) (Suc i) = rd xs i"
  by (simp_all add: rd_def)

lemma rd_inside [mem_simps]: "i < length xs \<Longrightarrow> rd (xs @ ys) i = Some (xs ! i)"
  by (simp add: rd_def nth_append)

lemma rd_bytes_prefix [mem_simps]: "rd_bytes (xs @ ys) 0 (length xs) = Some xs"
  by (simp add: rd_bytes_def)

lemma rd_bytes_append [mem_simps]: "rd_bytes (xs @ ys @ zs) (length xs) (length ys) = Some ys"
  by (simp add: rd_bytes_def)

lemma rd_bytes_whole [mem_simps]: "rd_bytes xs 0 (length xs) = Some xs"
  by (simp add: rd_bytes_def)

lemma length_blit: "blit m p bs = Some m' \<Longrightarrow> length m' = length m"
  by (auto simp: blit_def split: if_splits)

lemma fill_Some [mem_simps]: "length bs \<le> cap \<Longrightarrow> fill cap bs = Some bs"
  by (simp add: fill_def)

lemma cstr_no_NUL [simp]: "NUL \<notin> set (cstr bs)"
  by (auto simp: cstr_def dest: set_takeWhileD)

lemma cstr_terminated [simp]: "NUL \<notin> set s \<Longrightarrow> cstr (s @ NUL # j) = s"
  by (auto simp: cstr_def takeWhile_append)

lemma cstr_id [simp]: "NUL \<notin> set s \<Longrightarrow> cstr s = s"
  by (auto simp: cstr_def takeWhile_eq_all_conv)

lemma cstr_snoc_NUL [simp]: "cstr (bs @ [NUL]) = cstr bs"
  by (induction bs) (auto simp: cstr_def)

text \<open>Any object that holds a NUL is a C string followed by its terminator.\<close>

lemma terminated_object:
  assumes "NUL \<in> set m"
  obtains j where "m = cstr m @ NUL # j" and "NUL \<notin> set (cstr m)"
proof -
  from split_list_first [OF assms] obtain i j where m: "m = i @ NUL # j" and "NUL \<notin> set i"
    by blast
  then have "cstr m = i" by simp
  with m \<open>NUL \<notin> set i\<close> show thesis using that by simp
qed

section \<open>Splitting byte strings\<close>

text \<open>\<open>split_on c s\<close>: the part of \<open>s\<close> before its first \<open>c\<close> and the part after it.\<close>

fun split_on :: "char \<Rightarrow> bytes \<Rightarrow> (bytes \<times> bytes) option" where
  "split_on c [] = None"
| "split_on c (x # xs) =
     (if x = c then Some ([], xs)
      else map_option (\<lambda>(l, r). (x # l, r)) (split_on c xs))"

lemma split_on_SomeD: "split_on c s = Some (l, r) \<Longrightarrow> s = l @ c # r \<and> c \<notin> set l"
  by (induction s arbitrary: l) (auto split: if_splits)

lemma split_on_append [simp]: "c \<notin> set l \<Longrightarrow> split_on c (l @ c # r) = Some (l, r)"
  by (induction l) auto

lemma split_on_Some: "split_on c s = Some (l, r) \<longleftrightarrow> s = l @ c # r \<and> c \<notin> set l"
  using split_on_SomeD by fastforce

lemma split_on_None: "split_on c s = None \<longleftrightarrow> c \<notin> set s"
  by (induction s) auto

lemma split_on_length: "map_option (\<lambda>(l, r). length l) (map_option (\<lambda>(l, r). (c # l, r)) x) =
    map_option Suc (map_option (\<lambda>(l, r). length l) x)"
  by (cases x) auto

text \<open>\<open>crlf_split s\<close>: the first line of \<open>s\<close> and what follows its CR LF.\<close>

fun crlf_split :: "bytes \<Rightarrow> (bytes \<times> bytes) option" where
  "crlf_split [] = None"
| "crlf_split [c] = None"
| "crlf_split (c # d # r) =
     (if c = CR \<and> d = LF then Some ([], r)
      else map_option (\<lambda>(l, t). (c # l, t)) (crlf_split (d # r)))"

lemma crlf_split_SomeD: "crlf_split s = Some (l, r) \<Longrightarrow> s = l @ CRLF @ r"
  by (induction s arbitrary: l rule: crlf_split.induct) (auto split: if_splits)

lemma crlf_split_length: "crlf_split s = Some (l, r) \<Longrightarrow> length r < length s"
  by (auto dest: crlf_split_SomeD)

lemma crlf_split_append [simp]: "CR \<notin> set l \<Longrightarrow> crlf_split (l @ CR # LF # r) = Some (l, r)"
proof (induction l)
  case Nil
  then show ?case by simp
next
  case (Cons a l)
  then show ?case by (cases l) auto
qed

lemma crlf_split_None_iff: "crlf_split s = None \<longleftrightarrow> \<not> sublist CRLF s"
  by (induction s rule: crlf_split.induct) (auto simp: sublist_Cons_right split: if_splits)

end
