(* ===== verification/C_Lib.thy ===== *)
theory C_Lib
  imports Prelude
begin

text \<open>
  The functions of the C standard library the server calls. Those that read memory take the
  object and the offset of the pointer; \<open>None\<close> is a read outside the object, \<open>Some None\<close> the
  null pointer and \<open>Some (Some q)\<close> a pointer to offset \<open>q\<close> of the same object. Functions the
  server applies to strings it has stored before (\<open>strcmp\<close>, \<open>strcasecmp\<close>, \<open>strrchr\<close>, \<open>strtol\<close>,
  \<open>strtoull\<close>) take the bytes of the string without its terminator.
\<close>

section \<open>Scanning memory\<close>

fun strlen_at :: "bytes \<Rightarrow> nat option" where
  "strlen_at [] = None"
| "strlen_at (c # cs) = (if c = NUL then Some 0 else map_option Suc (strlen_at cs))"

fun strchr_at :: "bytes \<Rightarrow> char \<Rightarrow> nat option option" where
  "strchr_at [] ch = None"
| "strchr_at (c # cs) ch =
     (if c = ch then Some (Some 0)
      else if c = NUL then Some None
      else map_option (map_option Suc) (strchr_at cs ch))"

fun memchr_at :: "bytes \<Rightarrow> char \<Rightarrow> nat \<Rightarrow> nat option option" where
  "memchr_at cs ch 0 = Some None"
| "memchr_at [] ch (Suc n) = None"
| "memchr_at (c # cs) ch (Suc n) =
     (if c = ch then Some (Some 0) else map_option (map_option Suc) (memchr_at cs ch n))"

fun strstr_at :: "bytes \<Rightarrow> bytes \<Rightarrow> nat option option" where
  "strstr_at [] needle = None"
| "strstr_at (c # cs) needle =
     (if prefix needle (c # cs) then Some (Some 0)
      else if c = NUL then Some None
      else map_option (map_option Suc) (strstr_at cs needle))"

definition strlen :: "bytes \<Rightarrow> nat \<Rightarrow> nat option" where
  "strlen m p = strlen_at (drop p m)"

definition strchr :: "bytes \<Rightarrow> nat \<Rightarrow> char \<Rightarrow> nat option option" where
  "strchr m p ch = map_option (map_option ((+) p)) (strchr_at (drop p m) ch)"

definition memchr :: "bytes \<Rightarrow> nat \<Rightarrow> char \<Rightarrow> nat \<Rightarrow> nat option option" where
  "memchr m p ch n = map_option (map_option ((+) p)) (memchr_at (drop p m) ch n)"

definition strstr :: "bytes \<Rightarrow> nat \<Rightarrow> bytes \<Rightarrow> nat option option" where
  "strstr m p needle = map_option (map_option ((+) p)) (strstr_at (drop p m) needle)"

lemma strlen_at_terminated [clib_simps]:
  "NUL \<notin> set s \<Longrightarrow> strlen_at (s @ NUL # j) = Some (length s)"
  by (induction s) auto

lemma strchr_at_terminated [clib_simps]:
  "NUL \<notin> set s \<Longrightarrow> ch \<noteq> NUL \<Longrightarrow>
   strchr_at (s @ NUL # j) ch = Some (map_option (\<lambda>(l, r). length l) (split_on ch s))"
  by (induction s) (auto simp: split_on_length)

lemma memchr_at_append [clib_simps]:
  "memchr_at (l @ x) ch (length l) = Some (map_option (\<lambda>(a, b). length a) (split_on ch l))"
  by (induction l) (simp_all add: split_on_length)

lemma strstr_at_terminated [clib_simps]:
  "NUL \<notin> set s \<Longrightarrow>
   strstr_at (s @ NUL # j) CRLF = Some (map_option (\<lambda>(l, r). length l) (crlf_split s))"
proof (induction s rule: crlf_split.induct)
  case (3 c d r)
  show ?case
  proof (cases "c = CR \<and> d = LF")
    case True
    then show ?thesis by simp
  next
    case False
    have "\<not> prefix CRLF (c # (d # r) @ NUL # j)" using False by auto
    then have "strstr_at ((c # d # r) @ NUL # j) CRLF =
        map_option (map_option Suc) (strstr_at ((d # r) @ NUL # j) CRLF)"
      using 3(2) by (simp only: append_Cons strstr_at.simps(2) [of c]) auto
    also have "strstr_at ((d # r) @ NUL # j) CRLF =
        Some (map_option (\<lambda>(l, r). length l) (crlf_split (d # r)))"
      using "3.IH" [OF False] "3.prems" by (simp del: strstr_at.simps append_Cons)
    finally show ?thesis using False by (simp add: split_on_length del: strstr_at.simps)
  qed
qed auto

text \<open>A match of \<open>strstr\<close> lies inside the object, at or behind the pointer.\<close>

lemma strstr_at_bound:
  "strstr_at cs needle = Some (Some q) \<Longrightarrow> q + length needle \<le> length cs"
proof (induction cs arbitrary: q)
  case Nil
  then show ?case by simp
next
  case (Cons c cs)
  show ?case
  proof (cases "prefix needle (c # cs)")
    case True
    with Cons.prems have "q = 0" by simp
    with True show ?thesis by (simp only: add_0 prefix_length_le)
  next
    case False
    with Cons.prems obtain q' where "strstr_at cs needle = Some (Some q')" and "q = Suc q'"
      by (auto split: if_splits)
    with Cons.IH show ?thesis by simp
  qed
qed

lemma strstr_bound:
  assumes "strstr m p needle = Some (Some q)"
  shows "p \<le> q" and "p \<le> length m" and "q + length needle \<le> length m"
proof -
  from assms obtain d where d: "strstr_at (drop p m) needle = Some (Some d)" and q: "q = p + d"
    by (auto simp: strstr_def)
  from d have ne: "drop p m \<noteq> []" by (cases "drop p m") auto
  with strstr_at_bound [OF d] q
  show "p \<le> q" and "p \<le> length m" and "q + length needle \<le> length m" by auto
qed

section \<open>Comparing strings\<close>

fun strcmp :: "bytes \<Rightarrow> bytes \<Rightarrow> int" where
  "strcmp [] [] = 0"
| "strcmp [] (y # ys) = -1"
| "strcmp (x # xs) [] = 1"
| "strcmp (x # xs) (y # ys) =
     (if x = y then strcmp xs ys else if uchar x < uchar y then -1 else 1)"

lemma strcmp_eq_0 [simp]: "strcmp s t = 0 \<longleftrightarrow> s = t"
  by (induction s t rule: strcmp.induct) auto

text \<open>\<open>tolower\<close> in the C locale the server runs in.\<close>

definition tolower :: "char \<Rightarrow> char" where
  "tolower c = (if 65 \<le> uchar c \<and> uchar c \<le> 90 then char_of (nat (uchar c + 32)) else c)"

definition strcasecmp :: "bytes \<Rightarrow> bytes \<Rightarrow> int" where
  "strcasecmp s t = strcmp (map tolower s) (map tolower t)"

lemma strcasecmp_eq_0: "strcasecmp s t = 0 \<longleftrightarrow> map tolower s = map tolower t"
  by (simp add: strcasecmp_def)

text \<open>\<open>strrchr\<close>: the suffix that starts at the last occurrence of the character.\<close>

fun strrchr :: "bytes \<Rightarrow> char \<Rightarrow> bytes option" where
  "strrchr [] ch = None"
| "strrchr (c # cs) ch =
     (case strrchr cs ch of
        Some e \<Rightarrow> Some e
      | None \<Rightarrow> if c = ch then Some (c # cs) else None)"

lemma strrchr_None: "strrchr s ch = None \<longleftrightarrow> ch \<notin> set s"
  by (induction s) (auto split: option.splits)

lemma strrchr_Some:
  "strrchr s ch = Some e \<longleftrightarrow> (\<exists>p x. s = p @ ch # x \<and> e = ch # x \<and> ch \<notin> set x)"
proof (induction s arbitrary: e)
  case Nil
  then show ?case by simp
next
  case (Cons c cs)
  show ?case
  proof (cases "ch \<in> set cs")
    case True
    then obtain e' where e': "strrchr cs ch = Some e'" using strrchr_None by fastforce
    then obtain p' x' where cs: "cs = p' @ ch # x'" and "e' = ch # x'" and "ch \<notin> set x'"
      using Cons.IH by blast
    have "(\<exists>p x. c # cs = p @ ch # x \<and> e = ch # x \<and> ch \<notin> set x) \<longleftrightarrow>
          (\<exists>p x. cs = p @ ch # x \<and> e = ch # x \<and> ch \<notin> set x)"
      using True by (auto simp: Cons_eq_append_conv)
    with e' Cons.IH [of e] show ?thesis by simp
  next
    case False
    then have "strrchr cs ch = None" by (simp add: strrchr_None)
    with False show ?thesis by (auto simp: Cons_eq_append_conv)
  qed
qed

section \<open>Decimal numbers\<close>

definition isdigit :: "char \<Rightarrow> bool" where
  "isdigit c \<longleftrightarrow> 48 \<le> uchar c \<and> uchar c \<le> 57"

definition isspace :: "char \<Rightarrow> bool" where
  "isspace c \<longleftrightarrow> uchar c = 32 \<or> (9 \<le> uchar c \<and> uchar c \<le> 13)"

definition digit_val :: "char \<Rightarrow> nat" where
  "digit_val c = nat (uchar c - 48)"

definition digit_char :: "nat \<Rightarrow> char" where
  "digit_char d = char_of (48 + d)"

definition dec_val :: "bytes \<Rightarrow> nat" where
  "dec_val ds = foldl (\<lambda>a c. 10 * a + digit_val c) 0 ds"

text \<open>The conversion \<open>%d\<close> or \<open>%lld\<close> of a non-negative number.\<close>

fun dec_str :: "nat \<Rightarrow> bytes" where
  "dec_str n = (if n < 10 then [digit_char n] else dec_str (n div 10) @ [digit_char (n mod 10)])"

declare dec_str.simps [simp del]

definition fmt_d :: "int \<Rightarrow> bytes" where
  "fmt_d i = (if i < 0 then CHR ''-'' # dec_str (nat (- i)) else dec_str (nat i))"

lemma uchar_digit_char: "d < 10 \<Longrightarrow> uchar (digit_char d) = 48 + int d"
  by (simp add: uchar_def digit_char_def)

lemma digit_char_props:
  "d < 10 \<Longrightarrow> isdigit (digit_char d)" "d < 10 \<Longrightarrow> digit_val (digit_char d) = d"
  by (simp_all add: isdigit_def digit_val_def uchar_digit_char)

lemma dec_val_snoc [simp]: "dec_val (ds @ [c]) = 10 * dec_val ds + digit_val c"
  by (simp add: dec_val_def)

lemma dec_val_Nil [simp]: "dec_val [] = 0"
  by (simp add: dec_val_def)

lemma dec_str_props:
  "dec_str n \<noteq> [] \<and> list_all isdigit (dec_str n) \<and> dec_val (dec_str n) = n"
proof (induction n rule: dec_str.induct)
  case (1 n)
  show ?case
  proof (cases "n < 10")
    case True
    then show ?thesis
      by (simp add: dec_str.simps [of n] digit_char_props dec_val_def)
  next
    case False
    with 1 show ?thesis
      by (simp add: dec_str.simps [of n] digit_char_props)
  qed
qed

lemma dec_str_length: "n < 10 ^ Suc d \<Longrightarrow> length (dec_str n) \<le> Suc d"
proof (induction d arbitrary: n)
  case 0
  then show ?case by (simp add: dec_str.simps [of n])
next
  case (Suc d)
  have "n div 10 < 10 ^ Suc d" using Suc.prems by (simp add: less_mult_imp_div_less mult.commute)
  with Suc.IH show ?case by (subst dec_str.simps) auto
qed

section \<open>strtol and strtoull\<close>

text \<open>
  Both skip white space, take an optional sign and the longest run of digits. The result is the
  value, the suffix the end pointer points to, and whether \<open>errno\<close> was set to \<open>ERANGE\<close>. Without
  a digit the end pointer is the start of the string. \<open>strtoull\<close> negates in the unsigned type.
\<close>

definition LONG_MAX :: int where "LONG_MAX = 2 ^ 63 - 1"
definition LONG_MIN :: int where "LONG_MIN = - (2 ^ 63)"
definition ULLONG_MAX :: int where "ULLONG_MAX = 2 ^ 64 - 1"
definition INT_MAX :: int where "INT_MAX = 2 ^ 31 - 1"

definition num_sign :: "bytes \<Rightarrow> bool \<times> bytes" where
  "num_sign s =
     (case s of
        [] \<Rightarrow> (False, s)
      | c # cs \<Rightarrow> if c = CHR ''-'' then (True, cs) else if c = CHR ''+'' then (False, cs) else (False, s))"

definition strtol :: "bytes \<Rightarrow> int \<times> bytes \<times> bool" where
  "strtol s =
     (let (neg, t) = num_sign (dropWhile isspace s);
          ds = takeWhile isdigit t;
          v = (if neg then - int (dec_val ds) else int (dec_val ds))
      in if ds = [] then (0, s, False)
         else if v > LONG_MAX then (LONG_MAX, dropWhile isdigit t, True)
         else if v < LONG_MIN then (LONG_MIN, dropWhile isdigit t, True)
         else (v, dropWhile isdigit t, False))"

definition strtoull :: "bytes \<Rightarrow> int \<times> bytes \<times> bool" where
  "strtoull s =
     (let (neg, t) = num_sign (dropWhile isspace s);
          ds = takeWhile isdigit t;
          v = int (dec_val ds)
      in if ds = [] then (0, s, False)
         else if v > ULLONG_MAX then (ULLONG_MAX, dropWhile isdigit t, True)
         else (if neg then (- v) mod 2 ^ 64 else v, dropWhile isdigit t, False))"

lemma list_all_digits [simp]:
  "list_all isdigit ds \<Longrightarrow> takeWhile isdigit ds = ds"
  "list_all isdigit ds \<Longrightarrow> dropWhile isdigit ds = []"
  by (simp_all add: list_all_iff takeWhile_eq_all_conv dropWhile_eq_Nil_conv)

lemma digit_not_space_sign:
  "isdigit c \<Longrightarrow> \<not> isspace c \<and> c \<noteq> CHR ''-'' \<and> c \<noteq> CHR ''+''"
  by (auto simp: isdigit_def isspace_def uchar_def)

lemma num_sign_digits:
  "list_all isdigit ds \<Longrightarrow> num_sign (dropWhile isspace ds) = (False, ds)"
  by (cases ds) (auto simp: num_sign_def digit_not_space_sign)

lemma strtol_digits:
  "list_all isdigit ds \<Longrightarrow> ds \<noteq> [] \<Longrightarrow> int (dec_val ds) \<le> LONG_MAX \<Longrightarrow>
   strtol ds = (int (dec_val ds), [], False)"
  by (simp add: strtol_def num_sign_digits LONG_MIN_def)

lemma strtoull_digits:
  "list_all isdigit ds \<Longrightarrow> ds \<noteq> [] \<Longrightarrow> int (dec_val ds) \<le> ULLONG_MAX \<Longrightarrow>
   strtoull ds = (int (dec_val ds), [], False)"
  by (simp add: strtoull_def num_sign_digits)

end
