(* ===== verification/Config.thy ===== *)
theory Config
  imports C_Lib
begin

text \<open>
  \<open>include/config.h\<close> and \<open>src/config.c\<close>: the server configuration, its defaults and the parser
  of the command line. \<open>argv\<close> is the list of the arguments, program name first; the functions
  return the C return code together with the configuration they leave behind.
\<close>

section \<open>The configuration\<close>

definition DEFAULT_PORT :: int where "DEFAULT_PORT = 8080"
definition DEFAULT_BACKLOG :: int where "DEFAULT_BACKLOG = 10"
definition DEFAULT_CLIENT_TIMEOUT :: int where "DEFAULT_CLIENT_TIMEOUT = 10"
definition DEFAULT_DOCUMENT_ROOT :: bytes where "DEFAULT_DOCUMENT_ROOT = ''public''"
definition DEFAULT_HTTP_BUFFER_SIZE :: nat where "DEFAULT_HTTP_BUFFER_SIZE = 16384"
definition DEFAULT_HTTP_MAX_HEADERS :: nat where "DEFAULT_HTTP_MAX_HEADERS = 64"
definition DEFAULT_HTTP_HEADER_NAME_MAX :: nat where "DEFAULT_HTTP_HEADER_NAME_MAX = 128"
definition DEFAULT_HTTP_HEADER_VALUE_MAX :: nat where "DEFAULT_HTTP_HEADER_VALUE_MAX = 4096"

record server_config_t =
  port :: int
  backlog :: int
  client_timeout :: int
  document_root :: bytes
  http_buffer_size :: nat
  http_max_headers :: nat
  http_header_name_max :: nat
  http_header_value_max :: nat

section \<open>Numbers on the command line\<close>

definition parse_positive_int :: "bytes \<Rightarrow> int \<Rightarrow> int \<times> int" where
  "parse_positive_int value_arg result =
     (case strtol value_arg of
        (parsed, end_ptr, erange) \<Rightarrow>
          if erange \<or> end_ptr = value_arg \<or> end_ptr \<noteq> [] \<or> parsed \<le> 0 \<or> parsed > INT_MAX
          then (-1, result)
          else (0, parsed))"

definition parse_positive_size :: "bytes \<Rightarrow> nat \<Rightarrow> int \<times> nat" where
  "parse_positive_size value_arg result =
     (case strtoull value_arg of
        (parsed, end_ptr, erange) \<Rightarrow>
          if erange \<or> end_ptr = value_arg \<or> end_ptr \<noteq> [] \<or> parsed \<le> 0 \<or> parsed \<ge> INT_MAX
          then (-1, result)
          else (0, nat parsed))"

section \<open>Defaults and options\<close>

definition config_init :: "server_config_t \<Rightarrow> server_config_t" where
  "config_init config = config\<lparr>
     port := DEFAULT_PORT,
     backlog := DEFAULT_BACKLOG,
     client_timeout := DEFAULT_CLIENT_TIMEOUT,
     document_root := DEFAULT_DOCUMENT_ROOT,
     http_buffer_size := DEFAULT_HTTP_BUFFER_SIZE,
     http_max_headers := DEFAULT_HTTP_MAX_HEADERS,
     http_header_name_max := DEFAULT_HTTP_HEADER_NAME_MAX,
     http_header_value_max := DEFAULT_HTTP_HEADER_VALUE_MAX\<rparr>"

text \<open>
  One option of the loop of \<open>config_parse_args\<close> that takes a number: the stored field is
  written when the number parses. \<open>config_option\<close> is the body of the loop for an option whose
  value is present; an option as the last argument is the \<open>i + 1 >= argc\<close> case.
\<close>

definition config_option :: "server_config_t \<Rightarrow> bytes \<Rightarrow> bytes \<Rightarrow> int \<times> server_config_t" where
  "config_option config opt val =
     (if strcmp opt ''--port'' = 0 then
        (case parse_positive_int val (port config) of
           (r, p) \<Rightarrow>
             if r < 0 then (-1, config)
             else if p > 65535 then (-1, config\<lparr>port := p\<rparr>)
             else (0, config\<lparr>port := p\<rparr>))
      else if strcmp opt ''--backlog'' = 0 then
        (case parse_positive_int val (backlog config) of
           (r, b) \<Rightarrow> if r < 0 then (-1, config) else (0, config\<lparr>backlog := b\<rparr>))
      else if strcmp opt ''--timeout'' = 0 then
        (case parse_positive_int val (client_timeout config) of
           (r, t) \<Rightarrow> if r < 0 then (-1, config) else (0, config\<lparr>client_timeout := t\<rparr>))
      else if strcmp opt ''--root'' = 0 then (0, config\<lparr>document_root := val\<rparr>)
      else if strcmp opt ''--http-buffer-size'' = 0 then
        (case parse_positive_size val (http_buffer_size config) of
           (r, n) \<Rightarrow> if r < 0 then (-1, config) else (0, config\<lparr>http_buffer_size := n\<rparr>))
      else if strcmp opt ''--max-headers'' = 0 then
        (case parse_positive_size val (http_max_headers config) of
           (r, n) \<Rightarrow> if r < 0 then (-1, config) else (0, config\<lparr>http_max_headers := n\<rparr>))
      else if strcmp opt ''--header-name-max'' = 0 then
        (case parse_positive_size val (http_header_name_max config) of
           (r, n) \<Rightarrow> if r < 0 then (-1, config) else (0, config\<lparr>http_header_name_max := n\<rparr>))
      else if strcmp opt ''--header-value-max'' = 0 then
        (case parse_positive_size val (http_header_value_max config) of
           (r, n) \<Rightarrow> if r < 0 then (-1, config) else (0, config\<lparr>http_header_value_max := n\<rparr>))
      else (-1, config))"

text \<open>The loop \<open>for (int i = 1; i < argc; i++)\<close>: every known option consumes two arguments.\<close>

fun config_args_loop :: "server_config_t \<Rightarrow> bytes list \<Rightarrow> int \<times> server_config_t" where
  "config_args_loop config [] = (0, config)"
| "config_args_loop config [opt] = (-1, config)"
| "config_args_loop config (opt # val # rest) =
     (case config_option config opt val of
        (r, config') \<Rightarrow> if r < 0 then (-1, config') else config_args_loop config' rest)"

definition config_parse_args :: "server_config_t \<Rightarrow> bytes list \<Rightarrow> int \<times> server_config_t" where
  "config_parse_args config argv = config_args_loop config (drop 1 argv)"

section \<open>What the number parsers accept\<close>

text \<open>
  The number a whole argument stands for: optional white space, an optional sign and nothing but
  digits, at least one. The first component tells a minus sign.
\<close>

definition signed_number :: "bytes \<Rightarrow> (bool \<times> nat) option" where
  "signed_number s =
     (case num_sign (dropWhile isspace s) of
        (neg, ds) \<Rightarrow> if ds \<noteq> [] \<and> list_all isdigit ds then Some (neg, dec_val ds) else None)"

lemma num_sign_shrinks: "num_sign t = (neg, ds) \<Longrightarrow> length ds \<le> length t"
  by (auto simp: num_sign_def split: list.splits if_splits)

lemma not_all_digits:
  "\<not> list_all isdigit ds \<Longrightarrow> dropWhile isdigit ds \<noteq> []"
  by (simp add: list_all_iff)

lemma digits_not_self:
  assumes "num_sign (dropWhile isspace s) = (neg, ds)" "ds \<noteq> []" "list_all isdigit ds"
  shows "s \<noteq> []"
  using assms by (auto simp: num_sign_def)

text \<open>
  The two functions, without the pointers of \<open>strtol\<close> and \<open>strtoull\<close>. A number that does not fit
  the C type has \<open>errno\<close> set and is refused either way.
\<close>

lemma parse_positive_int_eq:
  "parse_positive_int s old =
     (case signed_number s of
        Some (False, n) \<Rightarrow> if 1 \<le> n \<and> int n \<le> INT_MAX then (0, int n) else (-1, old)
      | _ \<Rightarrow> (-1, old))"
proof -
  obtain neg ds where sg: "num_sign (dropWhile isspace s) = (neg, ds)" by fastforce
  show ?thesis
  proof (cases "list_all isdigit ds")
    case True
    then show ?thesis
      using digits_not_self [OF sg]
      by (cases neg)
        (auto simp: parse_positive_int_def strtol_def signed_number_def sg Let_def
          LONG_MAX_def LONG_MIN_def INT_MAX_def)
  next
    case False
    then show ?thesis
      using not_all_digits [OF False]
      by (auto simp: parse_positive_int_def strtol_def signed_number_def sg Let_def split: bool.splits)
  qed
qed

lemma parse_positive_size_eq:
  "parse_positive_size s old =
     (case signed_number s of
        None \<Rightarrow> (-1, old)
      | Some (neg, n) \<Rightarrow>
          (let v = (if neg then (- int n) mod 2 ^ 64 else int n)
           in if n < 2 ^ 64 \<and> 1 \<le> v \<and> v < INT_MAX then (0, nat v) else (-1, old)))"
proof -
  obtain neg ds where sg: "num_sign (dropWhile isspace s) = (neg, ds)" by fastforce
  have fits: "int n > ULLONG_MAX \<longleftrightarrow> \<not> n < 2 ^ 64" for n
    by (simp add: ULLONG_MAX_def) linarith
  show ?thesis
  proof (cases "list_all isdigit ds")
    case True
    then show ?thesis
      using digits_not_self [OF sg]
      by (auto simp: parse_positive_size_def strtoull_def signed_number_def sg Let_def fits)
  next
    case False
    then show ?thesis
      using not_all_digits [OF False]
      by (auto simp: parse_positive_size_def strtoull_def signed_number_def sg Let_def)
  qed
qed

lemma signed_number_dec_str: "signed_number (dec_str n) = Some (False, n)"
  using dec_str_props [of n] by (simp add: signed_number_def num_sign_digits)

section \<open>What the command line parser accepts\<close>

text \<open>The ranges of a configuration.\<close>

definition config_ranges :: "server_config_t \<Rightarrow> bool" where
  "config_ranges c \<longleftrightarrow>
     1 \<le> port c \<and> port c \<le> 65535 \<and>
     1 \<le> backlog c \<and> backlog c \<le> INT_MAX \<and>
     1 \<le> client_timeout c \<and> client_timeout c \<le> INT_MAX \<and>
     (\<forall>n \<in> {http_buffer_size c, http_max_headers c, http_header_name_max c, http_header_value_max c}.
        1 \<le> n \<and> int n < INT_MAX)"

lemma parse_positive_int_range:
  "parse_positive_int s old = (r, n) \<Longrightarrow> \<not> r < 0 \<Longrightarrow> 1 \<le> n \<and> n \<le> INT_MAX"
  by (auto simp: parse_positive_int_eq split: option.splits if_splits bool.splits)

lemma parse_positive_size_range:
  "parse_positive_size s old = (r, n) \<Longrightarrow> \<not> r < 0 \<Longrightarrow> 1 \<le> n \<and> int n < INT_MAX"
  by (auto simp: parse_positive_size_eq Let_def split: option.splits if_splits)

lemma config_init_ranges: "config_ranges (config_init c)"
  by (simp add: config_ranges_def config_init_def DEFAULT_PORT_def DEFAULT_BACKLOG_def
      DEFAULT_CLIENT_TIMEOUT_def DEFAULT_HTTP_BUFFER_SIZE_def DEFAULT_HTTP_MAX_HEADERS_def
      DEFAULT_HTTP_HEADER_NAME_MAX_def DEFAULT_HTTP_HEADER_VALUE_MAX_def INT_MAX_def)

lemma config_option_ranges:
  "config_ranges c \<Longrightarrow> config_option c opt val = (r, c') \<Longrightarrow> \<not> r < 0 \<Longrightarrow> config_ranges c'"
  unfolding config_option_def config_ranges_def
  by (auto split: if_splits prod.splits
      dest!: parse_positive_int_range parse_positive_size_range)

lemma config_args_loop_ranges:
  "config_ranges c \<Longrightarrow> config_args_loop c args = (0, c') \<Longrightarrow> config_ranges c'"
  by (induction c args rule: config_args_loop.induct)
    (auto split: prod.splits if_splits intro: config_option_ranges)

text \<open>The arguments that describe a configuration.\<close>

definition render_args :: "server_config_t \<Rightarrow> bytes list" where
  "render_args c =
     [''--port'', dec_str (nat (port c)), ''--backlog'', dec_str (nat (backlog c)),
      ''--timeout'', dec_str (nat (client_timeout c)), ''--root'', document_root c,
      ''--http-buffer-size'', dec_str (http_buffer_size c),
      ''--max-headers'', dec_str (http_max_headers c),
      ''--header-name-max'', dec_str (http_header_name_max c),
      ''--header-value-max'', dec_str (http_header_value_max c)]"

lemma parse_positive_int_dec_str:
  "1 \<le> n \<Longrightarrow> n \<le> INT_MAX \<Longrightarrow> parse_positive_int (dec_str (nat n)) old = (0, n)"
  by (simp add: parse_positive_int_eq signed_number_dec_str)

lemma parse_positive_size_dec_str:
  "1 \<le> n \<Longrightarrow> int n < INT_MAX \<Longrightarrow> parse_positive_size (dec_str n) old = (0, n)"
  by (simp add: parse_positive_size_eq signed_number_dec_str INT_MAX_def)

section \<open>Properties\<close>

text \<open>
  C32: The command line parser starts from the defaults and, where it returns 0, leaves a
  configuration whose port is between 1 and 65535, whose backlog and timeout are positive and
  whose four sizes are between 1 and \<open>INT_MAX - 1\<close>, whatever the arguments are.
\<close>

theorem config_parse_args_bounds:
  assumes "config_parse_args (config_init c) argv = (0, c')"
  shows "config_ranges c'"
  using assms config_args_loop_ranges config_init_ranges unfolding config_parse_args_def by blast

definition example_config :: server_config_t where
  "example_config = \<lparr>port = 8080, backlog = 10, client_timeout = 10, document_root = ''public'',
     http_buffer_size = 16384, http_max_headers = 64, http_header_name_max = 128,
     http_header_value_max = 4096\<rparr>"

theorem config_parse_args_bounds_witness:
  "config_ranges (example_config\<lparr>port := 9000, http_max_headers := 32\<rparr>)"
  by (rule config_parse_args_bounds [of example_config
        "[''server'', ''--port'', ''9000'', ''--max-headers'', ''32'']"]) code_simp

text \<open>
  C31: Writing a configuration within the accepted ranges as command line options and parsing
  them gives back exactly that configuration, whatever configuration the parser started from.
\<close>

theorem config_parse_args_render:
  assumes "config_ranges c"
  shows "config_parse_args c0 (prog # render_args c) = (0, c)"
  using assms
  by (cases c) (simp add: config_parse_args_def render_args_def config_ranges_def config_option_def
      strcmp_eq_0 parse_positive_int_dec_str parse_positive_size_dec_str INT_MAX_def)

theorem config_parse_args_render_witness:
  "config_parse_args (config_init example_config) (''server'' # render_args example_config) =
     (0, example_config)"
  by (rule config_parse_args_render) (simp add: config_ranges_def example_config_def INT_MAX_def)

text \<open>
  C39: A size argument is not restricted to positive numbers. An argument with a minus sign is
  negated modulo \<open>2 ^ 64\<close> by \<open>strtoull\<close>, so that negative numbers just above \<open>- 2 ^ 64\<close> are
  accepted as small positive sizes, although the function is meant to refuse them.
\<close>

theorem parse_positive_size_negative:
  assumes "1 \<le> n" "int n < INT_MAX"
  shows "parse_positive_size (CHR ''-'' # dec_str (2 ^ 64 - n)) old = (0, n)"
proof -
  have "num_sign (dropWhile isspace (CHR ''-'' # dec_str m)) = (True, dec_str m)" for m
    by (simp add: num_sign_def isspace_def uchar_def)
  then have "signed_number (CHR ''-'' # dec_str (2 ^ 64 - n)) = Some (True, 2 ^ 64 - n)"
    using dec_str_props [of "2 ^ 64 - n"] by (simp add: signed_number_def)
  moreover have "(- int (2 ^ 64 - n)) mod 2 ^ 64 = int n"
  proof -
    have "- int (2 ^ 64 - n) = int n + (-1) * 2 ^ 64" using assms by (simp add: INT_MAX_def of_nat_diff)
    then have "(- int (2 ^ 64 - n)) mod 2 ^ 64 = int n mod 2 ^ 64" by (simp only: mod_mult_self1)
    with assms show ?thesis by (simp add: INT_MAX_def)
  qed
  ultimately show ?thesis using assms by (simp add: parse_positive_size_eq Let_def INT_MAX_def)
qed

theorem parse_positive_size_negative_witness:
  "parse_positive_size (CHR ''-'' # dec_str (2 ^ 64 - 1)) 0 = (0, 1)"
  by (rule parse_positive_size_negative) (simp_all add: INT_MAX_def)

end
