(* ===== verification/Kernel.thy ===== *)
theory Kernel
  imports Prelude "HOL-Library.Multiset" "HOL-Library.Word"
begin

text \<open>
  The boundary to the operating system. The kernel, the client behind the socket and the memory
  allocator are not part of the program; they are the parameter \<open>k\<close> of every operation that
  makes a system call. A kernel is a function that answers a call knowing everything that
  happened before, so that one \<open>k\<close> is one complete behaviour of the environment, and a statement
  for all \<open>k\<close> covers every behaviour, unreliable networks and hostile clients included.

  The state of a process as seen from outside is the trace of its calls and their answers. What
  the client has received and which descriptors are open are functions of the trace.

  What the code relies on is stated as named predicates on \<open>k\<close> (\<open>send_bounded\<close>,
  \<open>sendfile_bounded\<close>, \<open>recv_bounded\<close>, \<open>retry_fair\<close>), each of them documented behaviour of
  the call.
\<close>

section \<open>Calls and answers\<close>

datatype errno =
    EINTR | EAGAIN | ENOENT | EACCES | EPERM | EXDEV | ELOOP | EINVAL | Errno nat

abbreviation EWOULDBLOCK :: errno where "EWOULDBLOCK \<equiv> EAGAIN"

datatype open_flag = O_RDONLY | O_CLOEXEC | O_DIRECTORY

datatype resolve_flag = RESOLVE_BENEATH | RESOLVE_NO_SYMLINKS

record open_how =
  how_flags :: "open_flag list"
  how_resolve :: "resolve_flag list"

datatype st_mode = S_IFREG | S_IFDIR | S_IFOTHER

datatype syscall =
    Sys_malloc nat
  | Sys_send int bytes
  | Sys_recv int nat
  | Sys_sendfile int int int int \<comment> \<open>socket, file, offset, count\<close>
  | Sys_openat2 int bytes open_how
  | Sys_fstat int
  | Sys_close int
  | Sys_socket
  | Sys_open bytes "open_flag list"
  | Sys_inet_pton bytes
  | Sys_bind int bytes "16 word" \<comment> \<open>socket, address, \<open>sin_port\<close> as it is stored\<close>
  | Sys_listen int int
  | Sys_accept int
  | Sys_setsockopt_rcvtimeo int int
  | Sys_fork
  | Sys_waitpid
  | Sys_sigaction

text \<open>
  An answer: the return value, \<open>errno\<close> where it is negative, the bytes written to the caller's
  buffer, and the two fields of \<open>struct stat\<close> the program reads.
\<close>

record answer =
  a_ret :: int
  a_errno :: errno
  a_data :: bytes
  a_mode :: st_mode
  a_size :: int

type_synonym event = "syscall \<times> answer"
type_synonym trace = "event list"
type_synonym kernel = "trace \<Rightarrow> syscall \<Rightarrow> answer"

definition sys :: "kernel \<Rightarrow> syscall \<Rightarrow> trace \<Rightarrow> answer \<times> trace" where
  "sys k c tr = (k tr c, tr @ [(c, k tr c)])"

lemma sys_event: obtains a where "sys k c tr = (a, tr @ [(c, a)])" "a = k tr c"
  by (simp add: sys_def)

text \<open>
  \<open>malloc\<close> returns the null pointer (answer \<open>-1\<close>) or an object of the requested size whose
  contents are whatever the allocator left there.
\<close>

definition malloc :: "kernel \<Rightarrow> nat \<Rightarrow> trace \<Rightarrow> bytes option \<times> trace" where
  "malloc k n tr =
     (case sys k (Sys_malloc n) tr of
        (a, tr') \<Rightarrow> (if a_ret a < 0 then None else Some (take n (a_data a @ replicate n NUL)), tr'))"

lemma malloc_length: "malloc k n tr = (Some m, tr') \<Longrightarrow> length m = n"
  by (auto simp: malloc_def sys_def split: if_splits)

section \<open>What the code relies on\<close>

definition send_bounded :: "kernel \<Rightarrow> bool" where
  "send_bounded k \<longleftrightarrow> (\<forall>tr fd d. a_ret (k tr (Sys_send fd d)) \<le> int (length d))"

definition sendfile_bounded :: "kernel \<Rightarrow> bool" where
  "sendfile_bounded k \<longleftrightarrow> (\<forall>tr s f off n. a_ret (k tr (Sys_sendfile s f off n)) \<le> n)"

definition recv_bounded :: "kernel \<Rightarrow> bool" where
  "recv_bounded k \<longleftrightarrow>
     (\<forall>tr fd n. a_ret (k tr (Sys_recv fd n)) \<le> int n \<and>
        (0 \<le> a_ret (k tr (Sys_recv fd n)) \<longrightarrow>
           length (a_data (k tr (Sys_recv fd n))) = nat (a_ret (k tr (Sys_recv fd n)))))"

definition interrupted :: "answer \<Rightarrow> bool" where
  "interrupted a \<longleftrightarrow> a_ret a < 0 \<and> a_errno a = EINTR"

text \<open>\<open>retried k c j tr\<close>: the trace after the call \<open>c\<close> was made \<open>j\<close> more times.\<close>

fun retried :: "kernel \<Rightarrow> syscall \<Rightarrow> nat \<Rightarrow> trace \<Rightarrow> trace" where
  "retried k c 0 tr = tr"
| "retried k c (Suc j) tr = retried k c j (tr @ [(c, k tr c)])"

text \<open>Signals do not interrupt one and the same call for ever.\<close>

definition retry_fair :: "kernel \<Rightarrow> bool" where
  "retry_fair k \<longleftrightarrow> (\<forall>c tr. \<exists>j. \<not> interrupted (k (retried k c j tr) c))"

text \<open>Induction over the retries of an interrupted call.\<close>

lemma retry_induct [consumes 1, case_names answered interrupted]:
  assumes "retry_fair k"
    and "\<And>tr. \<not> interrupted (k tr c) \<Longrightarrow> P tr"
    and "\<And>tr. interrupted (k tr c) \<Longrightarrow> P (tr @ [(c, k tr c)]) \<Longrightarrow> P tr"
  shows "P tr"
proof -
  from assms(1) obtain j where "\<not> interrupted (k (retried k c j tr) c)"
    by (auto simp: retry_fair_def)
  then show ?thesis
  proof (induction j arbitrary: tr)
    case 0
    then show ?case using assms(2) by simp
  next
    case (Suc j)
    then show ?case using assms(2,3) by (cases "interrupted (k tr c)") auto
  qed
qed

text \<open>The size of a file is an \<open>off_t\<close>.\<close>

definition stat_bounded :: "kernel \<Rightarrow> bool" where
  "stat_bounded k \<longleftrightarrow> (\<forall>tr fd. a_size (k tr (Sys_fstat fd)) < 2 ^ 63)"

text \<open>What the environment must do for the sending loops to return and for sizes to be sizes.\<close>

definition fair_kernel :: "kernel \<Rightarrow> bool" where
  "fair_kernel k \<longleftrightarrow> send_bounded k \<and> sendfile_bounded k \<and> retry_fair k \<and> stat_bounded k"

section \<open>Observables of a trace\<close>

text \<open>
  The bytes an event puts on the connection \<open>fd\<close>. \<open>content f\<close> are the bytes of the file open as
  descriptor \<open>f\<close>, which \<open>sendfile\<close> copies from.
\<close>

fun ev_bytes :: "(int \<Rightarrow> bytes) \<Rightarrow> int \<Rightarrow> event \<Rightarrow> bytes" where
  "ev_bytes content fd (Sys_send s d, a) = (if s = fd then take (nat (a_ret a)) d else [])"
| "ev_bytes content fd (Sys_sendfile s f off n, a) =
     (if s = fd then take (nat (a_ret a)) (drop (nat off) (content f)) else [])"
| "ev_bytes content fd _ = []"

definition sent :: "(int \<Rightarrow> bytes) \<Rightarrow> int \<Rightarrow> trace \<Rightarrow> bytes" where
  "sent content fd tr = concat (map (ev_bytes content fd) tr)"

lemma sent_append [trace_simps]: "sent content fd (tr @ tr') = sent content fd tr @ sent content fd tr'"
  by (simp add: sent_def)

lemma sent_Nil [trace_simps]: "sent content fd [] = []"
  by (simp add: sent_def)

lemma sent_Cons [trace_simps]: "sent content fd (e # tr) = ev_bytes content fd e @ sent content fd tr"
  by (simp add: sent_def)

text \<open>Descriptors: what an event opens and closes.\<close>

fun ev_opened :: "event \<Rightarrow> int multiset" where
  "ev_opened (Sys_openat2 d p h, a) = (if 0 \<le> a_ret a then {#a_ret a#} else {#})"
| "ev_opened (Sys_open p f, a) = (if 0 \<le> a_ret a then {#a_ret a#} else {#})"
| "ev_opened (Sys_socket, a) = (if 0 \<le> a_ret a then {#a_ret a#} else {#})"
| "ev_opened (Sys_accept s, a) = (if 0 \<le> a_ret a then {#a_ret a#} else {#})"
| "ev_opened _ = {#}"

fun ev_closed :: "event \<Rightarrow> int multiset" where
  "ev_closed (Sys_close fd, a) = {#fd#}"
| "ev_closed _ = {#}"

definition opened :: "trace \<Rightarrow> int multiset" where
  "opened tr = (\<Sum>e\<leftarrow>tr. ev_opened e)"

definition closed :: "trace \<Rightarrow> int multiset" where
  "closed tr = (\<Sum>e\<leftarrow>tr. ev_closed e)"

lemma opened_simps [trace_simps]:
  "opened [] = {#}" "opened (e # tr) = ev_opened e + opened tr"
  "opened (tr @ tr') = opened tr + opened tr'"
  by (simp_all add: opened_def)

lemma closed_simps [trace_simps]:
  "closed [] = {#}" "closed (e # tr) = ev_closed e + closed tr"
  "closed (tr @ tr') = closed tr + closed tr'"
  by (simp_all add: closed_def)

text \<open>
  The client sends finitely many bytes: once \<open>N\<close> bytes have arrived on \<open>fd\<close>, \<open>recv\<close> reports
  the end of the stream, an error or the receive timeout.
\<close>

fun ev_received :: "int \<Rightarrow> event \<Rightarrow> nat" where
  "ev_received fd (Sys_recv s n, a) = (if s = fd then nat (a_ret a) else 0)"
| "ev_received fd _ = 0"

definition received :: "int \<Rightarrow> trace \<Rightarrow> nat" where
  "received fd tr = (\<Sum>e\<leftarrow>tr. ev_received fd e)"

lemma received_append: "received fd (tr @ tr') = received fd tr + received fd tr'"
  by (simp add: received_def)

definition client_stops :: "kernel \<Rightarrow> int \<Rightarrow> nat \<Rightarrow> bool" where
  "client_stops k fd N \<longleftrightarrow>
     (\<forall>tr n. N \<le> received fd tr \<longrightarrow> a_ret (k tr (Sys_recv fd n)) \<le> 0)"

text \<open>
  Events in which the kernel refuses what the program needs to go on: a failed allocation, a
  negative file size, or a transfer of something that moves nothing. An interrupted call counts
  only where it is not retried.
\<close>

fun refused :: "bool \<Rightarrow> event \<Rightarrow> bool" where
  "refused retries (Sys_malloc n, a) \<longleftrightarrow> a_ret a < 0"
| "refused retries (Sys_send s d, a) \<longleftrightarrow>
     d \<noteq> [] \<and> (a_ret a = 0 \<or> a_ret a < 0 \<and> \<not> (retries \<and> a_errno a = EINTR))"
| "refused retries (Sys_sendfile s f off n, a) \<longleftrightarrow>
     0 < n \<and> (a_ret a = 0 \<or> a_ret a < 0 \<and> \<not> (retries \<and> a_errno a = EINTR))"
| "refused retries (Sys_fstat fd, a) \<longleftrightarrow> a_size a < 0"
| "refused retries _ \<longleftrightarrow> False"

text \<open>
  Calls that only allocate memory or send data: they neither open nor close a descriptor and
  take nothing from the client.
\<close>

fun data_call :: "syscall \<Rightarrow> bool" where
  "data_call (Sys_malloc n) = True"
| "data_call (Sys_send s d) = True"
| "data_call (Sys_sendfile s f off n) = True"
| "data_call _ = False"

lemma data_call_balance:
  "list_all (\<lambda>e. data_call (fst e)) tr \<Longrightarrow> opened tr = {#} \<and> closed tr = {#}"
proof (induction tr)
  case Nil
  then show ?case by (simp add: trace_simps)
next
  case (Cons e tr)
  obtain c a where e: "e = (c, a)" by (cases e)
  with Cons show ?case by (cases c) (simp_all add: trace_simps)
qed

fun receives :: "syscall \<Rightarrow> bool" where
  "receives (Sys_recv s n) = True"
| "receives _ = False"

abbreviation deaf :: "trace \<Rightarrow> bool" where
  "deaf ev \<equiv> list_all (\<lambda>e. \<not> receives (fst e)) ev"

lemma data_call_deaf: "list_all (\<lambda>e. data_call (fst e)) ev \<Longrightarrow> deaf ev"
proof (induction ev)
  case (Cons e ev)
  then show ?case by (cases "fst e") simp_all
qed simp

lemma deaf_received: "deaf ev \<Longrightarrow> received fd ev = 0"
proof (induction ev)
  case (Cons e ev)
  obtain c a where "e = (c, a)" by (cases e)
  with Cons show ?case by (cases c) (simp_all add: received_def)
qed (simp add: received_def)

section \<open>Histories a kernel can produce\<close>

text \<open>
  \<open>genuine k tr ev\<close>: every answer in \<open>ev\<close> is the one \<open>k\<close> gives to that call after \<open>tr\<close> and the
  events before it. \<open>runs k tr tr'\<close>: an operation that was entered with the history \<open>tr\<close> has left
  \<open>tr'\<close>, with nothing forgotten or made up.
\<close>

fun genuine :: "kernel \<Rightarrow> trace \<Rightarrow> trace \<Rightarrow> bool" where
  "genuine k tr [] \<longleftrightarrow> True"
| "genuine k tr ((c, a) # ev) \<longleftrightarrow> a = k tr c \<and> genuine k (tr @ [(c, a)]) ev"

lemma genuine_append: "genuine k tr (ev @ ev') \<longleftrightarrow> genuine k tr ev \<and> genuine k (tr @ ev) ev'"
  by (induction k tr ev rule: genuine.induct) auto

definition runs :: "kernel \<Rightarrow> trace \<Rightarrow> trace \<Rightarrow> bool" where
  "runs k tr tr' \<longleftrightarrow> (\<exists>ev. tr' = tr @ ev \<and> genuine k tr ev)"

lemma runs_refl [simp]: "runs k tr tr"
  by (simp add: runs_def)

lemma runs_trans [trans]: "runs k tr tr' \<Longrightarrow> runs k tr' tr'' \<Longrightarrow> runs k tr tr''"
  unfolding runs_def using genuine_append by fastforce

lemma runs_sys: "sys k c tr = (a, tr') \<Longrightarrow> runs k tr tr'"
  by (auto simp: sys_def runs_def)

lemma runs_event [simp]: "runs k tr (tr @ [(c, k tr c)])"
  by (simp add: runs_def)

lemma runs_malloc: "malloc k n tr = (m, tr') \<Longrightarrow> runs k tr tr'"
  by (auto simp: malloc_def sys_def)

lemma runs_append: "runs k tr (tr @ ev) \<longleftrightarrow> genuine k tr ev"
  by (auto simp: runs_def)

text \<open>A kernel that refuses nothing, and a client that sends \<open>data\<close> and then closes its side.\<close>

definition willing :: "kernel \<Rightarrow> bool" where
  "willing k \<longleftrightarrow> (\<forall>tr c. \<not> refused True (c, k tr c))"

lemma willing_genuine: "willing k \<Longrightarrow> genuine k tr ev \<Longrightarrow> \<not> list_ex (refused True) ev"
  by (induction k tr ev rule: genuine.induct) (auto simp: willing_def)

text \<open>
  The data arrives in order, in pieces of any size; a \<open>recv\<close> may be interrupted, and returns 0
  only at the end of the data.
\<close>

definition client_sends :: "kernel \<Rightarrow> int \<Rightarrow> bytes \<Rightarrow> bool" where
  "client_sends k fd data \<longleftrightarrow>
     (\<forall>tr n. let a = k tr (Sys_recv fd n); rest = drop (received fd tr) data
       in interrupted a \<or>
          0 \<le> a_ret a \<and> a_data a = take (nat (a_ret a)) rest \<and>
          (a_ret a = 0 \<longrightarrow> n = 0 \<or> rest = []))"

lemma client_sendsD:
  "client_sends k fd data \<Longrightarrow> interrupted (k tr (Sys_recv fd n)) \<or>
   0 \<le> a_ret (k tr (Sys_recv fd n)) \<and>
   a_data (k tr (Sys_recv fd n)) =
     take (nat (a_ret (k tr (Sys_recv fd n)))) (drop (received fd tr) data) \<and>
   (a_ret (k tr (Sys_recv fd n)) = 0 \<longrightarrow> n = 0 \<or> drop (received fd tr) data = [])"
  unfolding client_sends_def Let_def by blast

lemma client_sends_stops:
  assumes "client_sends k fd data" "recv_bounded k"
  shows "client_stops k fd (length data)"
  unfolding client_stops_def
proof (intro allI impI)
  fix tr n
  assume "length data \<le> received fd tr"
  with client_sendsD [OF assms(1), of tr n] have "interrupted (k tr (Sys_recv fd n)) \<or>
      0 \<le> a_ret (k tr (Sys_recv fd n)) \<and> a_data (k tr (Sys_recv fd n)) = []" by auto
  then show "a_ret (k tr (Sys_recv fd n)) \<le> 0"
  proof
    assume "0 \<le> a_ret (k tr (Sys_recv fd n)) \<and> a_data (k tr (Sys_recv fd n)) = []"
    moreover from this assms(2) have
      "length (a_data (k tr (Sys_recv fd n))) = nat (a_ret (k tr (Sys_recv fd n)))"
      unfolding recv_bounded_def by blast
    ultimately show ?thesis by simp
  qed (simp add: interrupted_def)
qed

end
