(* ===== verification/Example_Kernel.thy ===== *)
theory Example_Kernel
  imports Kernel
begin

text \<open>
  A concrete environment, which meets everything the development assumes of one: allocations
  succeed, every byte is taken at once, each path names a regular file of five bytes, and the
  client sends one request and then closes its side. It refuses nothing.
\<close>

definition answer_ok :: "int \<Rightarrow> answer" where
  "answer_ok r = \<lparr>a_ret = r, a_errno = Errno 0, a_data = [], a_mode = S_IFREG, a_size = 5\<rparr>"

definition answer_fails :: "errno \<Rightarrow> answer" where
  "answer_fails e = (answer_ok (-1))\<lparr>a_errno := e\<rparr>"

definition example_request :: bytes where
  "example_request = ''GET /a.txt HTTP/1.1'' @ CRLF @ ''Host: h'' @ CRLF @ CRLF"

fun example_kernel :: kernel where
  "example_kernel tr (Sys_send fd d) = answer_ok (int (length d))"
| "example_kernel tr (Sys_recv fd n) =
     (let d = take n (drop (received fd tr) example_request)
      in (answer_ok (int (length d)))\<lparr>a_data := d\<rparr>)"
| "example_kernel tr (Sys_sendfile s f off n) = answer_ok n"
| "example_kernel tr (Sys_openat2 d p h) = answer_ok 7"
| "example_kernel tr Sys_socket = answer_ok 3"
| "example_kernel tr (Sys_open p fs) = answer_ok 4"
| "example_kernel tr (Sys_accept fd) = answer_ok 5"
| "example_kernel tr (Sys_inet_pton p) = answer_ok 1"
| "example_kernel tr Sys_fork = answer_ok 100"
| "example_kernel tr c = answer_ok 0"

text \<open>The bytes of the files of the example.\<close>

definition example_content :: "int \<Rightarrow> bytes" where
  "example_content f = ''hello''"

lemma answer_ok_simps [simp]:
  "a_ret (answer_ok r) = r" "a_errno (answer_ok r) = Errno 0" "a_data (answer_ok r) = []"
  "a_mode (answer_ok r) = S_IFREG" "a_size (answer_ok r) = 5"
  by (simp_all add: answer_ok_def)

lemma answer_fails_simps [simp]:
  "a_ret (answer_fails e) = -1" "a_errno (answer_fails e) = e"
  by (simp_all add: answer_fails_def)

lemma example_not_interrupted: "\<not> interrupted (example_kernel tr c)"
  by (cases c) (simp_all add: interrupted_def Let_def)

lemma example_send_bounded [simp]: "send_bounded example_kernel"
  by (simp add: send_bounded_def)

lemma example_sendfile_bounded [simp]: "sendfile_bounded example_kernel"
  by (simp add: sendfile_bounded_def)

lemma example_retry_fair [simp]: "retry_fair example_kernel"
  by (simp add: retry_fair_def example_not_interrupted)

lemma example_recv_bounded [simp]: "recv_bounded example_kernel"
  by (simp add: recv_bounded_def Let_def)

lemma example_stat_bounded [simp]: "stat_bounded example_kernel"
  by (simp add: stat_bounded_def)

lemma example_fair [simp]: "fair_kernel example_kernel"
  by (simp add: fair_kernel_def)

lemma example_client_sends [simp]: "client_sends example_kernel fd example_request"
  by (simp add: client_sends_def Let_def min_def)

lemma example_client_stops [simp]: "client_stops example_kernel fd (length example_request)"
  by (rule client_sends_stops) simp_all

lemma example_willing [simp]: "willing example_kernel"
proof -
  have "\<not> refused True (c, example_kernel tr c)" for tr c by (cases c) (simp_all add: Let_def)
  then show ?thesis by (simp add: willing_def)
qed

end
