(* ===== verification/Transfers.thy ===== *)
theory Transfers
  imports Example_Kernel
begin

text \<open>
  The interface of the loops that push a block of bytes through the kernel piece by piece. The
  program has five of them (\<open>io_send_all\<close>, the three loops of \<open>http_response_send_blocking\<close>
  and \<open>file_send\<close>); each has the shape the locale assumes, and the locale proves once what such
  a loop does: it ends, and what has gone out is exactly a prefix of the block, the whole block
  where it reports success.
\<close>

datatype xfer_end = Finished | Stalled | Failed

text \<open>No call reports more than what was asked for.\<close>

definition xfer_bounded :: "kernel \<Rightarrow> (nat \<Rightarrow> syscall) \<Rightarrow> nat \<Rightarrow> bool" where
  "xfer_bounded k call len \<longleftrightarrow> (\<forall>tr n. a_ret (k tr (call n)) \<le> int (len - n))"

text \<open>
  What a run from position \<open>n\<close> and trace \<open>tr\<close> may return: the result \<open>fin e m\<close> of an end \<open>e\<close>
  at position \<open>m\<close>, with the bytes from \<open>n\<close> to \<open>m\<close> sent and nothing else. Only a refused call
  ends it before the whole block is out.
\<close>

definition xfer_outcome ::
    "bool \<Rightarrow> (int \<Rightarrow> bytes) \<Rightarrow> int \<Rightarrow> bytes \<Rightarrow> nat \<Rightarrow>
     (xfer_end \<Rightarrow> nat \<Rightarrow> trace \<Rightarrow> 'r) \<Rightarrow> nat \<Rightarrow> trace \<Rightarrow> 'r \<Rightarrow> bool" where
  "xfer_outcome retries content fd payload len fin n tr r \<longleftrightarrow>
     (\<exists>e m ev. r = fin e m (tr @ ev) \<and> n \<le> m \<and> m \<le> len \<and> (e = Finished \<longleftrightarrow> m = len) \<and>
        sent content fd ev = take (m - n) (drop n payload) \<and>
        list_all (\<lambda>x. data_call (fst x)) ev \<and>
        (e \<noteq> Finished \<longrightarrow> list_ex (refused retries) ev))"

locale transfer_loop =
  fixes k :: kernel
    and call :: "nat \<Rightarrow> syscall"
    and len :: nat
    and retries :: bool
    and payload :: bytes
    and content :: "int \<Rightarrow> bytes"
    and fd :: int
    and fin :: "xfer_end \<Rightarrow> nat \<Rightarrow> trace \<Rightarrow> 'r"
    and loop :: "nat \<Rightarrow> trace \<Rightarrow> 'r option"
  assumes loop_unfold:
    "loop n tr =
       (if n < len then
          (let a = k tr (call n); tr' = tr @ [(call n, a)]
           in if a_ret a < 0 then
                (if retries \<and> a_errno a = EINTR then loop n tr' else Some (fin Failed n tr'))
              else if a_ret a = 0 then Some (fin Stalled n tr')
              else loop (n + nat (a_ret a)) tr')
        else Some (fin Finished n tr))"
    and data_calls: "data_call (call n)"
    and emits: "a_ret a \<le> int (len - n) \<Longrightarrow>
      ev_bytes content fd (call n, a) = take (nat (a_ret a)) (drop n payload)"
    and refusals: "n < len \<Longrightarrow> refused r (call n, a) \<longleftrightarrow>
      a_ret a = 0 \<or> a_ret a < 0 \<and> \<not> (r \<and> a_errno a = EINTR)"
begin

lemma outcome_step:
  assumes "xfer_outcome retries content fd payload len fin (n + d) (tr @ [(call n, a)]) r"
    and "ev_bytes content fd (call n, a) = take d (drop n payload)"
  shows "xfer_outcome retries content fd payload len fin n tr r"
proof -
  from assms(1) obtain e m ev where
    r: "r = fin e m ((tr @ [(call n, a)]) @ ev)" "n + d \<le> m" "m \<le> len" "e = Finished \<longleftrightarrow> m = len"
    "sent content fd ev = take (m - (n + d)) (drop (n + d) payload)"
    "list_all (\<lambda>x. data_call (fst x)) ev" "e \<noteq> Finished \<longrightarrow> list_ex (refused retries) ev"
    unfolding xfer_outcome_def by blast
  let ?ev = "(call n, a) # ev"
  have "sent content fd ?ev = take d (drop n payload) @ take (m - (n + d)) (drop (n + d) payload)"
    using assms(2) r(5) by (simp add: trace_simps)
  also have "\<dots> = take (m - n) (drop n payload)"
  proof -
    have "m - n = d + (m - (n + d))" using r(2) by simp
    then show ?thesis by (simp only: take_add drop_drop add.commute)
  qed
  finally have "r = fin e m (tr @ ?ev) \<and> n \<le> m \<and> m \<le> len \<and> (e = Finished \<longleftrightarrow> m = len) \<and>
      sent content fd ?ev = take (m - n) (drop n payload) \<and>
      list_all (\<lambda>x. data_call (fst x)) ?ev \<and> (e \<noteq> Finished \<longrightarrow> list_ex (refused retries) ?ev)"
    using r data_calls by simp
  then show ?thesis unfolding xfer_outcome_def by blast
qed

lemma outcome_here:
  assumes "n < len" "a_ret a = 0 \<or> a_ret a < 0 \<and> \<not> (retries \<and> a_errno a = EINTR)" "e \<noteq> Finished"
  shows "xfer_outcome retries content fd payload len fin n tr (fin e n (tr @ [(call n, a)]))"
proof -
  have "sent content fd [(call n, a)] = take (n - n) (drop n payload)"
    using emits [of a n] assms(2) by (auto simp: trace_simps)
  with assms data_calls show ?thesis
    unfolding xfer_outcome_def
    by (intro exI [of _ e] exI [of _ n] exI [of _ "[(call n, a)]"]) (auto simp: refusals)
qed

lemma total:
  assumes bound: "xfer_bounded k call len" and fair: "retries \<Longrightarrow> retry_fair k" and "n \<le> len"
  shows "\<exists>r. loop n tr = Some r \<and> xfer_outcome retries content fd payload len fin n tr r"
  using assms(3)
proof (induction "len - n" arbitrary: n tr rule: less_induct)
  case less
  show ?case
  proof (cases "n < len")
    case False
    with less.prems have "n = len" by simp
    then have "xfer_outcome retries content fd payload len fin n tr (fin Finished n tr)"
      unfolding xfer_outcome_def
      by (intro exI [of _ Finished] exI [of _ n] exI [of _ "[]"]) (simp add: trace_simps)
    with False show ?thesis by (subst loop_unfold) simp
  next
    case True
    have settled: "\<exists>r. loop n tr = Some r \<and> xfer_outcome retries content fd payload len fin n tr r"
      if no: "\<not> (retries \<and> interrupted (k tr (call n)))" for tr
    proof -
      let ?a = "k tr (call n)" and ?tr = "tr @ [(call n, k tr (call n))]"
      have b: "a_ret ?a \<le> int (len - n)" using bound by (simp add: xfer_bounded_def)
      consider "a_ret ?a < 0" | "a_ret ?a = 0" | (more) "0 < a_ret ?a" by linarith
      then show ?thesis
      proof cases
        case more
        let ?d = "nat (a_ret ?a)"
        have "n + ?d \<le> len" "len - (n + ?d) < len - n" using b more True by auto
        with less.hyps obtain r where "loop (n + ?d) ?tr = Some r" "xfer_outcome retries content fd payload len fin (n + ?d) ?tr r" by blast
        with outcome_step [of n ?d tr ?a r] emits [OF b] more True show ?thesis
          by (subst loop_unfold) auto
      qed (use True no outcome_here [OF True, of ?a _ tr] in
            \<open>(subst loop_unfold, auto simp: interrupted_def)+\<close>)
    qed
    show ?thesis
    proof (cases retries)
      case False
      then show ?thesis using settled by simp
    next
      case True
      with fair have "retry_fair k" .
      then show ?thesis
      proof (induction tr rule: retry_induct [where c = "call n"])
        case (answered tr)
        then show ?case using settled by blast
      next
        case (interrupted tr)
        then obtain r where r: "loop n (tr @ [(call n, k tr (call n))]) = Some r"
          "xfer_outcome retries content fd payload len fin n (tr @ [(call n, k tr (call n))]) r" by blast
        have "ev_bytes content fd (call n, k tr (call n)) = take 0 (drop n payload)"
          using emits [of "k tr (call n)" n] interrupted(1) by (simp add: interrupted_def)
        then have "xfer_outcome retries content fd payload len fin n tr r" using outcome_step [of n 0 tr "k tr (call n)" r] r(2) by simp
        with r(1) interrupted(1) True \<open>n < len\<close> show ?case
          by (subst loop_unfold) (simp add: interrupted_def)
      qed
    qed
  qed
qed

end

end
