(* ===== verification/File_Open.thy ===== *)
theory File_Open
  imports Transfers
begin

text \<open>
  \<open>include/file.h\<close> and \<open>src/file.c\<close>: opening the file a request names beneath the document root,
  and sending a file. A failed open returns the value \<open>errno\<close> has when the function returns.
\<close>

record file_t =
  f_fd :: int
  f_size :: int

section \<open>Opening a request path\<close>

definition DEFAULT_INDEX_FILE :: bytes where "DEFAULT_INDEX_FILE = ''index.html''"

definition file_how :: open_how where
  "file_how = \<lparr>how_flags = [O_RDONLY, O_CLOEXEC],
               how_resolve = [RESOLVE_BENEATH, RESOLVE_NO_SYMLINKS]\<rparr>"

definition close_fd :: "kernel \<Rightarrow> int \<Rightarrow> trace \<Rightarrow> trace" where
  "close_fd k fd tr = snd (sys k (Sys_close fd) tr)"

text \<open>Escapes from the root and symbolic links are reported as forbidden.\<close>

definition file_open_errno :: "errno \<Rightarrow> errno" where
  "file_open_errno e = (if e = EXDEV \<or> e = ELOOP then EACCES else e)"

definition file_relative_path :: "bytes \<Rightarrow> bytes" where
  "file_relative_path request_path =
     (let relative_path = dropWhile (\<lambda>c. c = CHR ''/'') request_path
      in if relative_path = [] then ''.'' else relative_path)"

text \<open>The directory case: \<open>index.html\<close> inside the directory open as \<open>fd\<close>.\<close>

definition file_open_index :: "kernel \<Rightarrow> int \<Rightarrow> trace \<Rightarrow> (errno + file_t) \<times> trace" where
  "file_open_index k fd tr =
     (case sys k (Sys_openat2 fd DEFAULT_INDEX_FILE file_how) tr of
        (a, tr1) \<Rightarrow>
          if a_ret a < 0 then (Inl (file_open_errno (a_errno a)), close_fd k fd tr1)
          else
            (let index_fd = a_ret a; tr2 = close_fd k fd tr1
             in case sys k (Sys_fstat index_fd) tr2 of
                  (s, tr3) \<Rightarrow>
                    if a_ret s < 0 then (Inl (a_errno s), close_fd k index_fd tr3)
                    else if a_mode s \<noteq> S_IFREG then (Inl EACCES, close_fd k index_fd tr3)
                    else (Inr \<lparr>f_fd = index_fd, f_size = a_size s\<rparr>, tr3)))"

definition file_open_path :: "kernel \<Rightarrow> int \<Rightarrow> bytes \<Rightarrow> trace \<Rightarrow> (errno + file_t) \<times> trace" where
  "file_open_path k root_fd request_path tr =
     (if request_path = [] \<or> hd request_path \<noteq> CHR ''/'' then (Inl EINVAL, tr)
      else
        (case sys k (Sys_openat2 root_fd (file_relative_path request_path) file_how) tr of
           (a, tr1) \<Rightarrow>
             if a_ret a < 0 then (Inl (file_open_errno (a_errno a)), tr1)
             else
               (let fd = a_ret a
                in case sys k (Sys_fstat fd) tr1 of
                     (s, tr2) \<Rightarrow>
                       if a_ret s < 0 then (Inl (a_errno s), close_fd k fd tr2)
                       else if a_mode s = S_IFREG then (Inr \<lparr>f_fd = fd, f_size = a_size s\<rparr>, tr2)
                       else if a_mode s = S_IFDIR then file_open_index k fd tr2
                       else (Inl EACCES, close_fd k fd tr2))))"

section \<open>Sending a file\<close>

text \<open>\<open>offset\<close>, which \<open>sendfile\<close> advances, and \<open>total_sent\<close> are separate variables of the code.\<close>

partial_function (option) file_send_loop ::
    "kernel \<Rightarrow> file_t \<Rightarrow> int \<Rightarrow> int \<Rightarrow> int \<Rightarrow> trace \<Rightarrow> (int \<times> trace) option" where
  [code]: "file_send_loop k file socket_fd offset total_sent tr =
     (if total_sent < f_size file then
        (case sys k (Sys_sendfile socket_fd (f_fd file) offset (f_size file - total_sent)) tr of
           (a, tr') \<Rightarrow>
             if a_ret a < 0 then Some (-1, tr')
             else if a_ret a = 0 then Some (-1, tr')
             else file_send_loop k file socket_fd (offset + a_ret a) (total_sent + a_ret a) tr')
      else Some (total_sent, tr))"

definition file_send :: "kernel \<Rightarrow> file_t \<Rightarrow> int \<Rightarrow> trace \<Rightarrow> (int \<times> trace) option" where
  "file_send k file socket_fd tr = file_send_loop k file socket_fd 0 0 tr"

definition file_send_fin :: "xfer_end \<Rightarrow> nat \<Rightarrow> trace \<Rightarrow> int \<times> trace" where
  "file_send_fin e m tr = (if e = Finished then int m else -1, tr)"

interpretation file_send_xfer: transfer_loop k
  "\<lambda>n. Sys_sendfile fd f (int n) (int len - int n)" len False "content f" content fd
  file_send_fin "\<lambda>n. file_send_loop k \<lparr>f_fd = f, f_size = int len\<rparr> fd (int n) (int n)"
  for k fd f len content
  by unfold_locales
    (subst file_send_loop.simps, simp_all add: sys_def file_send_fin_def Let_def)

section \<open>The contract of the file layer\<close>

text \<open>
  A call that opens a file is confined when it resolves a relative path beneath a directory that
  is the document root or was itself opened that way, with symbolic links and escapes refused
  by the kernel.
\<close>

definition confined_open :: "int list \<Rightarrow> int \<Rightarrow> bytes \<Rightarrow> open_how \<Rightarrow> bool" where
  "confined_open dirs d p h \<longleftrightarrow>
     d \<in> set dirs \<and> p \<noteq> [] \<and> hd p \<noteq> CHR ''/'' \<and>
     RESOLVE_BENEATH \<in> set (how_resolve h) \<and> RESOLVE_NO_SYMLINKS \<in> set (how_resolve h)"

fun confined :: "int list \<Rightarrow> trace \<Rightarrow> bool" where
  "confined dirs [] \<longleftrightarrow> True"
| "confined dirs ((c, a) # tr) \<longleftrightarrow>
     (case c of
        Sys_openat2 d p h \<Rightarrow>
          confined_open dirs d p h \<and> confined (if a_ret a < 0 then dirs else a_ret a # dirs) tr
      | Sys_open p f \<Rightarrow> False
      | _ \<Rightarrow> confined dirs tr)"

lemma confined_mono: "confined dirs tr \<Longrightarrow> set dirs \<subseteq> set dirs' \<Longrightarrow> confined dirs' tr"
proof (induction tr arbitrary: dirs dirs')
  case Nil
  then show ?case by simp
next
  case (Cons e tr)
  obtain c a where e: "e = (c, a)" by (cases e)
  show ?case
  proof (cases c)
    case (Sys_openat2 d p h)
    let ?ds = "\<lambda>ds. if a_ret a < 0 then ds else a_ret a # ds"
    have "confined (?ds dirs) tr" using Cons.prems(1) e Sys_openat2 by auto
    moreover have "set (?ds dirs) \<subseteq> set (?ds dirs')" using Cons.prems(2) by auto
    ultimately have "confined (?ds dirs') tr" by (rule Cons.IH)
    moreover have "confined_open dirs' d p h"
      using Cons.prems e Sys_openat2 by (auto simp: confined_open_def)
    ultimately show ?thesis using e Sys_openat2 by auto
  qed (use Cons e in auto)
qed

lemma confined_append:
  "confined dirs tr \<Longrightarrow> confined dirs tr' \<Longrightarrow> confined dirs (tr @ tr')"
proof (induction tr arbitrary: dirs)
  case Nil
  then show ?case by simp
next
  case (Cons e tr)
  obtain c a where e: "e = (c, a)" by (cases e)
  show ?case
  proof (cases c)
    case (Sys_openat2 d p h)
    let ?ds = "if a_ret a < 0 then dirs else a_ret a # dirs"
    have "confined ?ds tr'" using Cons.prems(2) by (rule confined_mono) auto
    moreover have "confined ?ds tr" using Cons.prems(1) e Sys_openat2 by auto
    ultimately have "confined ?ds (tr @ tr')" by (intro Cons.IH)
    then show ?thesis using Cons.prems(1) e Sys_openat2 by auto
  qed (use Cons e in auto)
qed

lemma confined_data_calls: "list_all (\<lambda>x. data_call (fst x)) tr \<Longrightarrow> confined dirs tr"
proof (induction tr)
  case Nil
  then show ?case by simp
next
  case (Cons e tr)
  then show ?case by (cases e; cases "fst e") auto
qed

text \<open>
  What a client of the file layer may rely on: an open either fails and leaves no descriptor
  behind, or yields exactly one open descriptor, of a regular file whose size the kernel
  reported; every call it makes is confined.
\<close>

definition stat_regular :: "trace \<Rightarrow> file_t \<Rightarrow> bool" where
  "stat_regular ev file \<longleftrightarrow>
     (\<exists>a. (Sys_fstat (f_fd file), a) \<in> set ev \<and> a_ret a \<ge> 0 \<and> a_mode a = S_IFREG \<and>
          a_size a = f_size file)"

locale file_layer =
  fixes open_path :: "int \<Rightarrow> bytes \<Rightarrow> trace \<Rightarrow> (errno + file_t) \<times> trace"
  assumes open_fails: "open_path root p tr = (Inl e, tr') \<Longrightarrow>
      \<exists>ev. tr' = tr @ ev \<and> opened ev = closed ev \<and> confined [root] ev"
    and open_succeeds: "open_path root p tr = (Inr file, tr') \<Longrightarrow>
      \<exists>ev. tr' = tr @ ev \<and> opened ev = add_mset (f_fd file) (closed ev) \<and> confined [root] ev \<and>
        0 \<le> f_fd file \<and> stat_regular ev file"
begin

text \<open>Opening and closing again is neutral for the descriptor table.\<close>

lemma open_close_balanced:
  assumes "open_path root p tr = (Inr file, tr')"
  shows "\<exists>ev. tr' @ [(Sys_close (f_fd file), a)] = tr @ ev \<and> opened ev = closed ev \<and> confined [root] ev"
proof -
  from open_succeeds [OF assms] obtain ev where "tr' = tr @ ev"
    "opened ev = add_mset (f_fd file) (closed ev)" "confined [root] ev" by blast
  then show ?thesis
    by (intro exI [of _ "ev @ [(Sys_close (f_fd file), a)]"])
      (simp add: trace_simps confined_append)
qed

text \<open>Whatever the outcome, the call only adds to the trace and opens only beneath the root.\<close>

lemma open_confined:
  obtains ev where "snd (open_path root p tr) = tr @ ev" and "confined [root] ev"
  using open_fails [of root p tr] open_succeeds [of root p tr] that
  by (cases "open_path root p tr"; cases "fst (open_path root p tr)") fastforce+

end

lemma file_relative_path_relative:
  "file_relative_path p \<noteq> [] \<and> hd (file_relative_path p) \<noteq> CHR ''/''"
  using hd_dropWhile [of "\<lambda>c. c = CHR ''/''" p] by (auto simp: file_relative_path_def Let_def)

lemma file_how_strict [simp]:
  "confined_open dirs d p file_how \<longleftrightarrow> d \<in> set dirs \<and> p \<noteq> [] \<and> hd p \<noteq> CHR ''/''"
  by (simp add: confined_open_def file_how_def)

lemma close_fd_event: obtains a where "close_fd k fd tr = tr @ [(Sys_close fd, a)]"
  by (simp add: close_fd_def sys_def)

text \<open>The runs of the two functions, by the answers they get.\<close>

lemma file_open_index_runs:
  fixes k fd tr
  defines "open_index \<equiv> Sys_openat2 fd DEFAULT_INDEX_FILE file_how"
  obtains (missing) a b where "a_ret a < 0"
      "file_open_index k fd tr = (Inl (file_open_errno (a_errno a)),
         tr @ [(open_index, a), (Sys_close fd, b)])"
  | (rejected) a b s c e where "0 \<le> a_ret a"
      "e = (if a_ret s < 0 then a_errno s else EACCES)" "a_ret s < 0 \<or> a_mode s \<noteq> S_IFREG"
      "file_open_index k fd tr = (Inl e, tr @ [(open_index, a), (Sys_close fd, b),
         (Sys_fstat (a_ret a), s), (Sys_close (a_ret a), c)])"
  | (regular) a b s where "0 \<le> a_ret a" "0 \<le> a_ret s" "a_mode s = S_IFREG"
      "file_open_index k fd tr = (Inr \<lparr>f_fd = a_ret a, f_size = a_size s\<rparr>,
         tr @ [(open_index, a), (Sys_close fd, b), (Sys_fstat (a_ret a), s)])"
proof -
  obtain a where a: "sys k open_index tr = (a, tr @ [(open_index, a)])" by (rule sys_event)
  obtain b where b: "close_fd k fd (tr @ [(open_index, a)]) = tr @ [(open_index, a), (Sys_close fd, b)]"
    by (rule close_fd_event [of k fd "tr @ [(open_index, a)]"]) simp
  let ?t = "tr @ [(open_index, a), (Sys_close fd, b)]"
  let ?u = "\<lambda>s. tr @ [(open_index, a), (Sys_close fd, b), (Sys_fstat (a_ret a), s)]"
  obtain s where s: "sys k (Sys_fstat (a_ret a)) ?t = (s, ?u s)"
    by (rule sys_event [of k "Sys_fstat (a_ret a)" ?t]) simp
  obtain c where c: "close_fd k (a_ret a) (?u s) = tr @ [(open_index, a), (Sys_close fd, b),
      (Sys_fstat (a_ret a), s), (Sys_close (a_ret a), c)]"
    by (rule close_fd_event [of k "a_ret a" "?u s"]) simp
  note run = file_open_index_def [of k fd tr, folded open_index_def]
  consider "a_ret a < 0" | "0 \<le> a_ret a" "a_ret s < 0 \<or> a_mode s \<noteq> S_IFREG"
    | "0 \<le> a_ret a" "0 \<le> a_ret s" "a_mode s = S_IFREG" by linarith
  then show thesis
  proof cases
    case 1
    then show ?thesis by (intro missing [of a b]) (simp_all add: run a b)
  next
    case 2
    then show ?thesis by (intro rejected [OF 2(1) refl 2(2), of b c]) (auto simp: run a b s c Let_def)
  next
    case 3
    then show ?thesis by (intro regular [of a s b]) (simp_all add: run a b s Let_def)
  qed
qed

lemma file_open_path_runs:
  fixes k root p tr
  defines "open_file \<equiv> Sys_openat2 root (file_relative_path p) file_how"
  obtains (bad_path) "p = [] \<or> hd p \<noteq> CHR ''/''" "file_open_path k root p tr = (Inl EINVAL, tr)"
  | (refused) a where "p \<noteq> []" "hd p = CHR ''/''" "a_ret a < 0"
      "file_open_path k root p tr = (Inl (file_open_errno (a_errno a)), tr @ [(open_file, a)])"
  | (rejected) a s b e where "p \<noteq> []" "hd p = CHR ''/''" "0 \<le> a_ret a"
      "e = (if a_ret s < 0 then a_errno s else EACCES)"
      "a_ret s < 0 \<or> a_mode s = S_IFOTHER"
      "file_open_path k root p tr = (Inl e,
         tr @ [(open_file, a), (Sys_fstat (a_ret a), s), (Sys_close (a_ret a), b)])"
  | (regular) a s where "p \<noteq> []" "hd p = CHR ''/''" "0 \<le> a_ret a" "0 \<le> a_ret s"
      "a_mode s = S_IFREG"
      "file_open_path k root p tr = (Inr \<lparr>f_fd = a_ret a, f_size = a_size s\<rparr>,
         tr @ [(open_file, a), (Sys_fstat (a_ret a), s)])"
  | (directory) a s where "p \<noteq> []" "hd p = CHR ''/''" "0 \<le> a_ret a" "0 \<le> a_ret s"
      "a_mode s = S_IFDIR"
      "file_open_path k root p tr =
         file_open_index k (a_ret a) (tr @ [(open_file, a), (Sys_fstat (a_ret a), s)])"
proof -
  obtain a where a: "sys k open_file tr = (a, tr @ [(open_file, a)])" by (rule sys_event)
  let ?u = "\<lambda>s. tr @ [(open_file, a), (Sys_fstat (a_ret a), s)]"
  obtain s where s: "sys k (Sys_fstat (a_ret a)) (tr @ [(open_file, a)]) = (s, ?u s)"
    by (rule sys_event [of k "Sys_fstat (a_ret a)" "tr @ [(open_file, a)]"]) simp
  obtain b where b: "close_fd k (a_ret a) (?u s) =
      tr @ [(open_file, a), (Sys_fstat (a_ret a), s), (Sys_close (a_ret a), b)]"
    by (rule close_fd_event [of k "a_ret a" "?u s"]) simp
  note run = file_open_path_def [of k root p tr, folded open_file_def]
  show thesis
  proof (cases "p = [] \<or> hd p \<noteq> CHR ''/''")
    case True
    then show ?thesis by (rule bad_path) (use True run in simp)
  next
    case False
    then have p: "p \<noteq> []" "hd p = CHR ''/''" by auto
    consider "a_ret a < 0" | "0 \<le> a_ret a" "a_ret s < 0 \<or> a_mode s = S_IFOTHER"
      | "0 \<le> a_ret a" "0 \<le> a_ret s" "a_mode s = S_IFREG"
      | "0 \<le> a_ret a" "0 \<le> a_ret s" "a_mode s = S_IFDIR"
      by (cases "a_mode s") linarith+
    then show ?thesis
    proof cases
      case 1
      with p show ?thesis by (intro refused [of a]) (simp_all add: run a)
    next
      case 2
      with p show ?thesis by (intro rejected [OF p 2(1) refl 2(2), of b]) (auto simp: run a b s Let_def)
    next
      case 3
      with p show ?thesis by (intro regular [of a s]) (simp_all add: run a s Let_def)
    next
      case 4
      with p show ?thesis by (intro directory [of a s]) (simp_all add: run a s Let_def)
    qed
  qed
qed

lemma index_file_relative [simp]: "DEFAULT_INDEX_FILE \<noteq> []" "hd DEFAULT_INDEX_FILE \<noteq> CHR ''/''"
  by (simp_all add: DEFAULT_INDEX_FILE_def)

interpretation file_api: file_layer "file_open_path k" for k
proof
  fix root p tr e tr'
  assume "file_open_path k root p tr = (Inl e, tr')"
  then show "\<exists>ev. tr' = tr @ ev \<and> opened ev = closed ev \<and> confined [root] ev"
  proof (cases rule: file_open_path_runs [where k = k and root = root and p = p and tr = tr])
    case (directory a s)
    let ?t = "tr @ [(Sys_openat2 root (file_relative_path p) file_how, a), (Sys_fstat (a_ret a), s)]"
    show ?thesis
      by (cases rule: file_open_index_runs [where k = k and fd = "a_ret a" and tr = ?t])
        (use directory \<open>file_open_path k root p tr = (Inl e, tr')\<close> in
          \<open>auto simp: trace_simps file_relative_path_relative\<close>)
  qed (auto simp: trace_simps file_relative_path_relative)
next
  fix root p tr f tr'
  assume "file_open_path k root p tr = (Inr f, tr')"
  then show "\<exists>ev. tr' = tr @ ev \<and> opened ev = add_mset (f_fd f) (closed ev) \<and> confined [root] ev \<and>
      0 \<le> f_fd f \<and> stat_regular ev f"
  proof (cases rule: file_open_path_runs [where k = k and root = root and p = p and tr = tr])
    case (directory a s)
    let ?t = "tr @ [(Sys_openat2 root (file_relative_path p) file_how, a), (Sys_fstat (a_ret a), s)]"
    show ?thesis
      by (cases rule: file_open_index_runs [where k = k and fd = "a_ret a" and tr = ?t])
        (use directory \<open>file_open_path k root p tr = (Inr f, tr')\<close> in
          \<open>auto simp: trace_simps file_relative_path_relative stat_regular_def\<close>)
  qed (auto simp: trace_simps file_relative_path_relative stat_regular_def)
qed

text \<open>Opening a file and closing it again is neutral for the descriptors of the process.\<close>

lemma file_open_close_balanced:
  assumes "file_open_path k root p tr = (Inr file, tr')"
  shows "\<exists>ev. close_fd k (f_fd file) tr' = tr @ ev \<and> opened ev = closed ev \<and> confined [root] ev"
  using file_api.open_close_balanced [OF assms, of "k tr' (Sys_close (f_fd file))"]
  by (simp add: close_fd_def sys_def)

section \<open>Why an open fails\<close>

fun is_close :: "event \<Rightarrow> bool" where
  "is_close (Sys_close fd, a) = True"
| "is_close _ = False"

text \<open>What a call says about the path: the error it refuses it with, or none.\<close>

fun open_refusal :: "event \<Rightarrow> errno option" where
  "open_refusal (Sys_openat2 d p h, a) =
     (if 0 \<le> a_ret a then None
      else Some (if a_errno a = EXDEV \<or> a_errno a = ELOOP then EACCES else a_errno a))"
| "open_refusal (Sys_fstat fd, a) =
     (if a_ret a < 0 then Some (a_errno a) else if a_mode a = S_IFREG then None else Some EACCES)"
| "open_refusal _ = None"

text \<open>All calls are answered by the kernel.\<close>

lemma file_open_path_runs_kernel:
  "file_open_path k root p tr = (fo, tr') \<Longrightarrow> runs k tr tr'"
  by (auto simp: file_open_path_def file_open_index_def close_fd_def sys_def Let_def runs_append
      split: if_splits)

lemma prefix_slash: "p \<noteq> [] \<Longrightarrow> hd p = CHR ''/'' \<Longrightarrow> prefix ''/'' p"
  by (cases p) simp_all

section \<open>Properties\<close>

text \<open>
  C9: Whatever the path and the answers of the kernel, \<open>file_open_path\<close> opens only relative
  paths beneath the document root, or beneath a directory opened that way, with escapes and
  symbolic links refused by the kernel. A failed open leaves no descriptor behind, a successful
  one exactly the one it returns, which names a regular file of the reported size.
\<close>

theorem file_open_path_safe:
  "\<exists>ev. snd (file_open_path k root p tr) = tr @ ev \<and> confined [root] ev \<and>
    (case fst (file_open_path k root p tr) of
       Inl e \<Rightarrow> opened ev = closed ev
     | Inr file \<Rightarrow> opened ev = add_mset (f_fd file) (closed ev) \<and> 0 \<le> f_fd file \<and>
         stat_regular ev file)"
proof -
  obtain fo tr' where run: "file_open_path k root p tr = (fo, tr')" by fastforce
  show ?thesis
  proof (cases fo)
    case (Inl e)
    with run file_api.open_fails show ?thesis by fastforce
  next
    case (Inr f)
    with run file_api.open_succeeds show ?thesis by fastforce
  qed
qed

text \<open>
  C36: The outcome of \<open>file_open_path\<close> is decided by the first call that does not yield a file. A path
  that does not start with a slash is refused with \<open>EINVAL\<close> before any call. Otherwise the first
  call opens the path relative to the document root, and, apart from the closing of descriptors,
  all calls but the last succeed; the last one decides: a refused open, of the path or of
  \<open>index.html\<close>, is reported as \<open>EACCES\<close> where it would leave the root or pass a symbolic link and as it
  is otherwise, a failed \<open>fstat\<close> as it is, something that is not a regular file as \<open>EACCES\<close>; and a file
  is returned exactly where the last call is the \<open>fstat\<close> of a regular file.
\<close>

theorem file_open_path_errors:
  "\<exists>ev. snd (file_open_path k root p tr) = tr @ ev \<and> genuine k tr ev \<and>
    (if prefix ''/'' p then
       \<exists>calls last. filter (Not \<circ> is_close) ev = calls @ [last] \<and>
         fst (hd ev) = Sys_openat2 root (file_relative_path p) file_how \<and>
         list_all (\<lambda>e. 0 \<le> a_ret (snd e)) calls \<and>
         (case fst (file_open_path k root p tr) of
            Inl err \<Rightarrow> open_refusal last = Some err
          | Inr file \<Rightarrow> open_refusal last = None \<and> fst last = Sys_fstat (f_fd file))
     else ev = [] \<and> fst (file_open_path k root p tr) = Inl EINVAL)"
proof -
  have g: "snd (file_open_path k root p tr) = tr @ ev \<Longrightarrow> genuine k tr ev" for ev
    using file_open_path_runs_kernel [of k root p tr "fst (file_open_path k root p tr)" "tr @ ev"]
    by (simp add: runs_append prod_eq_iff)
  show ?thesis
  proof (cases rule: file_open_path_runs [where k = k and root = root and p = p and tr = tr])
    case bad_path
    then have "\<not> prefix ''/'' p" by (cases p) auto
    with bad_path show ?thesis by simp
  next
    case (directory a s)
    then have "prefix ''/'' p" by (cases p) auto
    let ?u = "[(Sys_openat2 root (file_relative_path p) file_how, a), (Sys_fstat (a_ret a), s)]"
    show ?thesis
      by (cases rule: file_open_index_runs [where k = k and fd = "a_ret a" and tr = "tr @ ?u"])
        (use directory \<open>prefix ''/'' p\<close> g in \<open>auto simp: file_open_errno_def\<close>)
  qed (use g in \<open>auto simp: file_open_errno_def prefix_slash\<close>)
qed

text \<open>
  C29: \<open>file_send\<close> returns for every behaviour of \<open>sendfile\<close>: what has gone out is a prefix of
  the first \<open>size\<close> bytes of the file, and it returns the size exactly where all of them have. It
  gives up where a call is refused or interrupted.
\<close>

theorem file_send_correct:
  assumes "sendfile_bounded k" "0 \<le> f_size file"
  shows "\<exists>r m ev. file_send k file fd tr = Some (r, tr @ ev) \<and> m \<le> nat (f_size file) \<and>
    sent content fd ev = take m (content (f_fd file)) \<and>
    (r = f_size file \<and> m = nat (f_size file) \<or>
     r = -1 \<and> m < nat (f_size file) \<and> list_ex (refused False) ev) \<and>
    opened ev = {#} \<and> closed ev = {#}"
proof -
  let ?n = "nat (f_size file)"
  have f: "file = \<lparr>f_fd = f_fd file, f_size = int ?n\<rparr>" "f_size file = int ?n"
    using assms(2) by simp_all
  have "xfer_bounded k (\<lambda>m. Sys_sendfile fd (f_fd file) (int m) (int ?n - int m)) ?n"
    unfolding xfer_bounded_def
  proof (intro allI)
    fix t m
    have "a_ret (k t (Sys_sendfile fd (f_fd file) (int m) (int ?n - int m))) \<le> int ?n - int m"
      using assms(1) unfolding sendfile_bounded_def by blast
    then show "a_ret (k t (Sys_sendfile fd (f_fd file) (int m) (int ?n - int m))) \<le> int (?n - m)" by linarith
  qed
  then have "\<exists>r. file_send_loop k \<lparr>f_fd = f_fd file, f_size = int ?n\<rparr> fd (int 0) (int 0) tr = Some r \<and>
      xfer_outcome False content fd (content (f_fd file)) ?n file_send_fin 0 tr r"
    by (intro file_send_xfer.total) simp_all
  then obtain r where r: "file_send_loop k file fd 0 0 tr = Some r"
    "xfer_outcome False content fd (content (f_fd file)) ?n file_send_fin 0 tr r"
    using f(1) by auto
  from r(2) obtain e m ev where "r = file_send_fin e m (tr @ ev)"
    "m \<le> ?n" "e = Finished \<longleftrightarrow> m = ?n" "sent content fd ev = take m (content (f_fd file))"
    "list_all (\<lambda>x. data_call (fst x)) ev" "e \<noteq> Finished \<longrightarrow> list_ex (refused False) ev"
    unfolding xfer_outcome_def by auto
  with r(1) data_call_balance [of ev] f(2) show ?thesis
    by (auto simp: file_send_def file_send_fin_def intro!: exI [of _ ev])
qed

theorem file_send_correct_witness:
  "\<exists>r m ev. file_send example_kernel \<lparr>f_fd = 7, f_size = 5\<rparr> 5 [] = Some (r, ev) \<and>
    sent example_content 5 ev = take m ''hello''"
  using file_send_correct [of example_kernel "\<lparr>f_fd = 7, f_size = 5\<rparr>" 5 "[]" example_content]
  by (auto simp: example_content_def)

end
