(* ===== verification/Server.thy ===== *)
theory Server
  imports Config File_Open
begin

unbundle bit_operations_syntax

text \<open>
  \<open>include/server.h\<close> and \<open>src/server.c\<close>: the listening socket and the descriptor of the document
  root. Messages on \<open>stderr\<close> are not modelled.
\<close>

record server_t =
  sv_fd :: int
  sv_root_fd :: int
  sv_port :: int
  sv_backlog :: int

definition server_init ::
    "kernel \<Rightarrow> server_t \<Rightarrow> server_config_t \<Rightarrow> trace \<Rightarrow> int \<times> server_t \<times> trace" where
  "server_init k server config tr =
     (let s0 = server\<lparr>sv_port := port config, sv_backlog := backlog config,
                      sv_fd := -1, sv_root_fd := -1\<rparr>
      in case sys k Sys_socket tr of
           (a, tr1) \<Rightarrow>
             (let s1 = s0\<lparr>sv_fd := a_ret a\<rparr>
              in if sv_fd s1 < 0 then (-1, s1, tr1)
                 else
                   (case sys k (Sys_open (document_root config) [O_RDONLY, O_DIRECTORY]) tr1 of
                      (b, tr2) \<Rightarrow>
                        (let s2 = s1\<lparr>sv_root_fd := a_ret b\<rparr>
                         in if sv_root_fd s2 < 0
                            then (-1, s2\<lparr>sv_fd := -1\<rparr>, close_fd k (sv_fd s2) tr2)
                            else (0, s2, tr2)))))"

text \<open>
  \<open>htons\<close> on the little-endian target swaps the two bytes, and its argument is converted to 16
  bits. \<open>net_port\<close> is how the kernel reads \<open>sin_port\<close>: the byte at the lower address, which on this
  target is the low one, is the more significant.
\<close>

definition htons :: "16 word \<Rightarrow> 16 word" where
  "htons w = push_bit 8 w OR drop_bit 8 w"

definition net_port :: "16 word \<Rightarrow> int" where
  "net_port w = 256 * uint (take_bit 8 w) + uint (drop_bit 8 w)"

lemma htons_bytes: "take_bit 8 (htons w) = drop_bit 8 w" "drop_bit 8 (htons w) = take_bit 8 w"
  by (rule bit_word_eqI; use bit_imp_le_length [of w] in \<open>fastforce simp: htons_def bit_simps\<close>)+

lemma net_port_htons: "net_port (htons w) = uint w"
proof -
  have "uint w = 256 * (uint w div 256) + uint w mod 256" by simp
  moreover have "uint (drop_bit 8 w) = uint w div 256" "uint (take_bit 8 w) = uint w mod 256"
    by (simp_all add: drop_bit_eq_div take_bit_eq_mod uint_div_distrib uint_mod_distrib)
  ultimately show ?thesis unfolding net_port_def htons_bytes by simp
qed

definition server_start :: "kernel \<Rightarrow> server_t \<Rightarrow> trace \<Rightarrow> int \<times> trace" where
  "server_start k server tr =
     (case sys k (Sys_inet_pton ''127.0.0.1'') tr of
        (p, tr1) \<Rightarrow>
          if a_ret p \<noteq> 1 then (-1, tr1)
          else
            (case sys k (Sys_bind (sv_fd server) ''127.0.0.1''
                          (htons (word_of_int (sv_port server)))) tr1 of
               (b, tr2) \<Rightarrow>
                 if a_ret b < 0 then (-1, tr2)
                 else
                   (case sys k (Sys_listen (sv_fd server) (sv_backlog server)) tr2 of
                      (l, tr3) \<Rightarrow> if a_ret l < 0 then (-1, tr3) else (0, tr3))))"

definition server_accept :: "kernel \<Rightarrow> server_t \<Rightarrow> int \<Rightarrow> trace \<Rightarrow> int \<times> trace" where
  "server_accept k server timeout tr =
     (case sys k (Sys_accept (sv_fd server)) tr of
        (a, tr1) \<Rightarrow>
          (let client_fd = a_ret a
           in if client_fd < 0 then (-1, tr1)
              else
                (case sys k (Sys_setsockopt_rcvtimeo client_fd timeout) tr1 of
                   (s, tr2) \<Rightarrow>
                     if a_ret s < 0 then (-1, close_fd k client_fd tr2) else (client_fd, tr2))))"

definition server_destroy :: "kernel \<Rightarrow> server_t \<Rightarrow> trace \<Rightarrow> server_t \<times> trace" where
  "server_destroy k server tr =
     (case (if sv_fd server \<ge> 0 then (server\<lparr>sv_fd := -1\<rparr>, close_fd k (sv_fd server) tr)
            else (server, tr)) of
        (s1, tr1) \<Rightarrow>
          if sv_root_fd s1 \<ge> 0
          then (s1\<lparr>sv_root_fd := -1\<rparr>, close_fd k (sv_root_fd s1) tr1)
          else (s1, tr1))"

section \<open>Descriptors\<close>

text \<open>\<open>holds tr fds\<close>: of the descriptors opened in the trace exactly \<open>fds\<close> are still open.\<close>

definition holds :: "trace \<Rightarrow> int multiset \<Rightarrow> bool" where
  "holds tr fds \<longleftrightarrow> opened tr = closed tr + fds"

lemma close_fd_snoc: "close_fd k fd tr = tr @ [(Sys_close fd, k tr (Sys_close fd))]"
  by (simp add: close_fd_def sys_def)

lemma holds_Nil [simp]: "holds [] fds \<longleftrightarrow> fds = {#}"
  by (auto simp: holds_def trace_simps)

lemma holds_snoc:
  "holds (tr @ [e]) fds \<longleftrightarrow> opened tr + ev_opened e = closed tr + ev_closed e + fds"
  by (simp add: holds_def trace_simps add.assoc)

lemma holds_close [intro]: "holds tr (add_mset fd fds) \<Longrightarrow> holds (close_fd k fd tr) fds"
  by (simp add: close_fd_snoc holds_snoc) (simp add: holds_def)

lemma holds_open: "holds tr fds \<Longrightarrow> ev_closed e = {#} \<Longrightarrow> holds (tr @ [e]) (ev_opened e + fds)"
  by (simp add: holds_snoc) (simp add: holds_def ac_simps)

lemma server_init_holds:
  assumes "server_init k server config tr = (r, s, tr')" "holds tr fds"
  shows "r = 0 \<and> 0 \<le> sv_fd s \<and> 0 \<le> sv_root_fd s \<and> sv_port s = port config \<and>
      sv_backlog s = backlog config \<and> holds tr' ({#sv_fd s, sv_root_fd s#} + fds) \<or>
    r = -1 \<and> sv_fd s < 0 \<and> sv_root_fd s < 0 \<and> holds tr' fds"
proof -
  let ?a = "k tr Sys_socket" and ?o = "Sys_open (document_root config) [O_RDONLY, O_DIRECTORY]"
  let ?t1 = "tr @ [(Sys_socket, ?a)]"
  let ?b = "k ?t1 ?o"
  have 1: "holds ?t1 (ev_opened (Sys_socket, ?a) + fds)" using assms(2) by (rule holds_open) simp
  have 2: "holds (?t1 @ [(?o, ?b)]) (ev_opened (?o, ?b) + (ev_opened (Sys_socket, ?a) + fds))"
    using 1 by (rule holds_open) simp
  consider "a_ret ?a < 0" | "0 \<le> a_ret ?a" "a_ret ?b < 0" | "0 \<le> a_ret ?a" "0 \<le> a_ret ?b" by linarith
  then show ?thesis
  proof cases
    case 1
    with assms \<open>holds ?t1 _\<close> show ?thesis by (auto simp: server_init_def sys_def Let_def)
  next
    case c: 2
    with 2 have "holds (close_fd k (a_ret ?a) (?t1 @ [(?o, ?b)])) fds" by (intro holds_close) simp
    with assms c show ?thesis by (auto simp: server_init_def sys_def Let_def)
  next
    case 3
    with assms 2 show ?thesis
      by (auto simp: server_init_def sys_def Let_def add_mset_commute)
  qed
qed

lemma server_start_holds:
  "server_start k s tr = (r, tr') \<Longrightarrow> holds tr fds \<Longrightarrow> holds tr' fds \<and> (r = 0 \<or> r = -1)"
  by (auto simp: server_start_def sys_def holds_def trace_simps split: if_splits)

lemma server_destroy_holds:
  assumes "server_destroy k s tr = (s', tr')" "0 \<le> sv_fd s" "0 \<le> sv_root_fd s"
    and "holds tr ({#sv_fd s, sv_root_fd s#} + fds)"
  shows "holds tr' fds \<and> sv_fd s' = -1 \<and> sv_root_fd s' = -1"
  using assms
  by (auto simp: server_destroy_def intro!: holds_close)

lemma server_accept_holds:
  assumes "server_accept k s t tr = (r, tr')" "holds tr fds"
  shows "r = -1 \<and> holds tr' fds \<or> 0 \<le> r \<and> holds tr' (add_mset r fds)"
proof -
  let ?a = "k tr (Sys_accept (sv_fd s))"
  let ?t1 = "tr @ [(Sys_accept (sv_fd s), ?a)]"
  let ?o = "Sys_setsockopt_rcvtimeo (a_ret ?a) t"
  let ?t2 = "?t1 @ [(?o, k ?t1 ?o)]"
  have 1: "holds ?t1 (ev_opened (Sys_accept (sv_fd s), ?a) + fds)" using assms(2) by (rule holds_open) simp
  then have 2: "holds ?t2 (ev_opened (?o, k ?t1 ?o) + (ev_opened (Sys_accept (sv_fd s), ?a) + fds))"
    by (rule holds_open) simp
  consider "a_ret ?a < 0" | "0 \<le> a_ret ?a" by linarith
  then show ?thesis
  proof cases
    case 1
    with assms \<open>holds ?t1 _\<close> show ?thesis by (auto simp: server_accept_def sys_def Let_def)
  next
    case c: 2
    with 2 have "holds ?t2 (add_mset (a_ret ?a) fds)" by simp
    with assms c show ?thesis
      by (auto simp: server_accept_def sys_def Let_def split: if_splits)
  qed
qed

end
