(* ===== verification/Io.thy ===== *)
theory Io
  imports Transfers
begin

text \<open>
  \<open>src/io.c\<close>: sending a whole buffer. \<open>data\<close> is the buffer and \<open>len\<close> the number of its bytes to
  send; the result is the return value of the C function and the trace.
\<close>

partial_function (option) io_send_all_loop ::
    "kernel \<Rightarrow> int \<Rightarrow> bytes \<Rightarrow> nat \<Rightarrow> nat \<Rightarrow> trace \<Rightarrow> (int \<times> trace) option" where
  [code]: "io_send_all_loop k fd data len total_sent tr =
     (if total_sent < len then
        do {
          chunk \<leftarrow> rd_bytes data total_sent (len - total_sent);
          (case sys k (Sys_send fd chunk) tr of
             (a, tr') \<Rightarrow>
               if a_ret a < 0 then
                 (if a_errno a = EINTR then io_send_all_loop k fd data len total_sent tr'
                  else Some (-1, tr'))
               else if a_ret a = 0 then Some (int total_sent, tr')
               else io_send_all_loop k fd data len (total_sent + nat (a_ret a)) tr')
        }
      else Some (int total_sent, tr))"

definition io_send_all :: "kernel \<Rightarrow> int \<Rightarrow> bytes \<Rightarrow> nat \<Rightarrow> trace \<Rightarrow> (int \<times> trace) option" where
  "io_send_all k fd buffer len tr = io_send_all_loop k fd buffer len 0 tr"

section \<open>The loop is a transfer loop\<close>

definition io_fin :: "xfer_end \<Rightarrow> nat \<Rightarrow> trace \<Rightarrow> int \<times> trace" where
  "io_fin e m tr = (if e = Failed then -1 else int m, tr)"

lemma send_chunk_bounded: "send_bounded k \<Longrightarrow> xfer_bounded k (\<lambda>n. Sys_send fd (take (len - n) (drop n d))) len"
  unfolding send_bounded_def xfer_bounded_def
proof (intro allI)
  fix tr n
  assume b: "\<forall>tr fd d. a_ret (k tr (Sys_send fd d)) \<le> int (length d)"
  have "a_ret (k tr (Sys_send fd (take (len - n) (drop n d)))) \<le>
      int (length (take (len - n) (drop n d)))" using b by blast
  also have "\<dots> \<le> int (len - n)" by simp
  finally show "a_ret (k tr (Sys_send fd (take (len - n) (drop n d)))) \<le> int (len - n)" .
qed

lemma send_chunk_emits:
  "a_ret a \<le> int (len - n) \<Longrightarrow>
   ev_bytes content fd (Sys_send fd (take (len - n) (drop n d)), a) =
     take (nat (a_ret a)) (drop n d)"
  by (simp add: min_absorb1 nat_le_iff)

text \<open>
  The buffer holds at least the bytes to send; the parameter \<open>rest\<close> is what lies behind them.
\<close>

interpretation io_send: transfer_loop k "\<lambda>n. Sys_send fd (take (length data - n) (drop n data))"
  "length data" True data content fd io_fin
  "io_send_all_loop k fd (data @ rest) (length data)"
  for k fd data rest content
proof unfold_locales
  fix n tr
  have "rd_bytes (data @ rest) n (length data - n) = Some (take (length data - n) (drop n data))"
    if "n < length data" using that by (simp add: rd_bytes_def)
  then show "io_send_all_loop k fd (data @ rest) (length data) n tr =
    (if n < length data then
       let a = k tr (Sys_send fd (take (length data - n) (drop n data)));
           tr' = tr @ [(Sys_send fd (take (length data - n) (drop n data)), a)]
       in if a_ret a < 0 then
            if True \<and> a_errno a = EINTR then io_send_all_loop k fd (data @ rest) (length data) n tr'
            else Some (io_fin Failed n tr')
          else if a_ret a = 0 then Some (io_fin Stalled n tr')
          else io_send_all_loop k fd (data @ rest) (length data) (n + nat (a_ret a)) tr'
     else Some (io_fin Finished n tr))"
    by (subst io_send_all_loop.simps) (simp add: sys_def io_fin_def Let_def)
qed (simp, erule send_chunk_emits, simp)

section \<open>Properties\<close>

text \<open>
  C28: \<open>io_send_all\<close> returns for every behaviour of the socket: it reads only the \<open>len\<close> bytes it
  is given, what the peer has received is a prefix of them in order, and the return value is the
  length of that prefix or \<open>-1\<close> with some bytes missing. Bytes are missing only where a call was
  refused; an interrupted call is made again. It opens and closes no descriptor.
\<close>

theorem io_send_all_correct:
  assumes "send_bounded k" "retry_fair k"
  shows "\<exists>r m ev. io_send_all k fd (data @ rest) (length data) tr = Some (r, tr @ ev) \<and>
    m \<le> length data \<and> sent content fd ev = take m data \<and>
    (r = int m \<or> r = -1 \<and> m < length data) \<and> (m < length data \<longrightarrow> list_ex (refused True) ev) \<and>
    opened ev = {#} \<and> closed ev = {#}"
proof -
  have "\<exists>r. io_send_all_loop k fd (data @ rest) (length data) 0 tr = Some r \<and>
      xfer_outcome True content fd data (length data) io_fin 0 tr r"
    by (rule io_send.total) (simp_all only: assms send_chunk_bounded le0)
  then show ?thesis
    unfolding xfer_outcome_def io_fin_def io_send_all_def
    using data_call_balance by (fastforce split: if_splits)
qed

theorem io_send_all_correct_witness:
  "\<exists>r m ev. io_send_all example_kernel 5 (''hello'' @ [NUL]) (length ''hello'') [] = Some (r, [] @ ev) \<and>
    m \<le> length ''hello'' \<and> sent example_content 5 ev = take m ''hello'' \<and>
    (r = int m \<or> r = -1 \<and> m < length ''hello'') \<and>
    (m < length ''hello'' \<longrightarrow> list_ex (refused True) ev) \<and> opened ev = {#} \<and> closed ev = {#}"
  by (rule io_send_all_correct) (rule example_send_bounded example_retry_fair)+

end
