(* ===== verification/Http_Types.thy ===== *)
theory Http_Types
  imports Config
begin

text \<open>
  The types of \<open>include/http.h\<close>: status codes, parse results, headers and requests. The arrays of
  \<open>http_request_t\<close> are the C strings they hold; the header table keeps its fixed number of
  slots and the count of the slots in use.
\<close>

definition HTTP_MAX_HEADERS :: nat where "HTTP_MAX_HEADERS = DEFAULT_HTTP_MAX_HEADERS"
definition HTTP_HEADER_NAME_MAX :: nat where "HTTP_HEADER_NAME_MAX = DEFAULT_HTTP_HEADER_NAME_MAX"
definition HTTP_HEADER_VALUE_MAX :: nat where "HTTP_HEADER_VALUE_MAX = DEFAULT_HTTP_HEADER_VALUE_MAX"
definition HTTP_QUERY_MAX :: nat where "HTTP_QUERY_MAX = 4096"

lemmas http_limits =
  HTTP_MAX_HEADERS_def HTTP_HEADER_NAME_MAX_def HTTP_HEADER_VALUE_MAX_def HTTP_QUERY_MAX_def
  DEFAULT_HTTP_MAX_HEADERS_def DEFAULT_HTTP_HEADER_NAME_MAX_def DEFAULT_HTTP_HEADER_VALUE_MAX_def

datatype http_status_t =
    HTTP_STATUS_OK
  | HTTP_STATUS_BAD_REQUEST
  | HTTP_STATUS_FORBIDDEN
  | HTTP_STATUS_NOT_FOUND
  | HTTP_STATUS_METHOD_NOT_ALLOWED
  | HTTP_STATUS_REQUEST_HEADER_FIELDS_TOO_LARGE
  | HTTP_STATUS_INTERNAL_SERVER_ERROR

fun http_status_code :: "http_status_t \<Rightarrow> int" where
  "http_status_code HTTP_STATUS_OK = 200"
| "http_status_code HTTP_STATUS_BAD_REQUEST = 400"
| "http_status_code HTTP_STATUS_FORBIDDEN = 403"
| "http_status_code HTTP_STATUS_NOT_FOUND = 404"
| "http_status_code HTTP_STATUS_METHOD_NOT_ALLOWED = 405"
| "http_status_code HTTP_STATUS_REQUEST_HEADER_FIELDS_TOO_LARGE = 431"
| "http_status_code HTTP_STATUS_INTERNAL_SERVER_ERROR = 500"

datatype http_parse_result_t =
    HTTP_PARSE_OK
  | HTTP_PARSE_BAD_REQUEST
  | HTTP_PARSE_HEADERS_TOO_LARGE

record http_header_t =
  hdr_name :: bytes
  hdr_value :: bytes

record http_request_t =
  rq_method :: bytes
  rq_path :: bytes
  rq_query :: bytes
  rq_version :: bytes
  rq_headers :: "http_header_t list"
  rq_header_count :: nat

text \<open>The headers a reader of the table sees.\<close>

definition active_headers :: "http_request_t \<Rightarrow> http_header_t list" where
  "active_headers request = take (rq_header_count request) (rq_headers request)"

text \<open>A request struct as the compiler lays it out: the table has all its slots.\<close>

definition request_wf :: "http_request_t \<Rightarrow> bool" where
  "request_wf request \<longleftrightarrow>
     length (rq_headers request) = HTTP_MAX_HEADERS \<and> rq_header_count request \<le> HTTP_MAX_HEADERS"

lemma length_active_headers [simp]:
  "request_wf request \<Longrightarrow> length (active_headers request) = rq_header_count request"
  by (simp add: active_headers_def request_wf_def)

end
