(* ===== verification/Http_Response.thy ===== *)
theory Http_Response
  imports Io Http_Types
begin

text \<open>
  \<open>include/http_response.h\<close> and \<open>src/http_response.c\<close>: status lines and header blocks, the
  response state and the functions that build, send and release a response. Pointers the code
  compares with \<open>NULL\<close> are options. Output to \<open>stderr\<close> is not modelled.
\<close>

section \<open>The response state\<close>

definition HTTP_RESPONSE_HEADER_MAX :: nat where "HTTP_RESPONSE_HEADER_MAX = 1024"

record http_response_t =
  rs_headers :: bytes
  rs_headers_length :: nat
  rs_headers_sent :: nat
  rs_body :: "bytes option"
  rs_body_length :: nat
  rs_body_sent :: nat
  rs_file_fd :: int
  rs_file_size :: int
  rs_file_offset :: int
  rs_send_body :: bool
  rs_complete :: bool

fun http_status_reason :: "http_status_t \<Rightarrow> bytes" where
  "http_status_reason HTTP_STATUS_OK = ''OK''"
| "http_status_reason HTTP_STATUS_BAD_REQUEST = ''Bad Request''"
| "http_status_reason HTTP_STATUS_FORBIDDEN = ''Forbidden''"
| "http_status_reason HTTP_STATUS_NOT_FOUND = ''Not Found''"
| "http_status_reason HTTP_STATUS_METHOD_NOT_ALLOWED = ''Method Not Allowed''"
| "http_status_reason HTTP_STATUS_INTERNAL_SERVER_ERROR = ''Internal Server Error''"
| "http_status_reason HTTP_STATUS_REQUEST_HEADER_FIELDS_TOO_LARGE = ''Request Header Fields Too Large''"

section \<open>Header blocks\<close>

text \<open>
  \<open>snprintf\<close>: the return value is the length of the whole text (negative where an \<open>int\<close> cannot
  hold it); the object \<open>buf\<close> receives as much of it as \<open>cap\<close> leaves room for before the
  terminator. \<open>None\<close> is a write behind the end of the object, which need not have \<open>cap\<close> bytes.
\<close>

definition snprintf :: "bytes \<Rightarrow> nat \<Rightarrow> bytes \<Rightarrow> (int \<times> bytes) option" where
  "snprintf buf cap txt =
     do {
       buf' \<leftarrow> (if cap = 0 then Some buf else blit buf 0 (take (cap - 1) txt @ [NUL]));
       Some (if int (length txt) > INT_MAX then -1 else int (length txt), buf')
     }"

definition response_head :: "http_status_t \<Rightarrow> bytes \<Rightarrow> int \<Rightarrow> bool \<Rightarrow> bytes" where
  "response_head status content_type content_length keep_alive =
     ''HTTP/1.1 '' @ fmt_d (http_status_code status) @ '' '' @ http_status_reason status @ CRLF @
     ''Content-Type: '' @ content_type @ CRLF @
     ''Content-Length: '' @ fmt_d content_length @ CRLF @
     ''Connection: '' @ (if keep_alive then ''keep-alive'' else ''close'') @ CRLF @
     CRLF"

definition http_build_response_headers ::
    "bytes option \<Rightarrow> nat \<Rightarrow> http_status_t \<Rightarrow> bytes option \<Rightarrow> int \<Rightarrow> bool \<Rightarrow>
     (int \<times> bytes option) option" where
  "http_build_response_headers buffer capacity status content_type content_length keep_alive =
     (case (buffer, content_type) of
        (Some b, Some ct) \<Rightarrow>
          if capacity = 0 \<or> content_length < 0 then Some (-1, buffer)
          else
            do {
              (len, b') \<leftarrow> snprintf b capacity (response_head status ct content_length keep_alive);
              (if len < 0 \<or> nat len \<ge> capacity then Some (-1, Some b') else Some (len, Some b'))
            }
      | _ \<Rightarrow> Some (-1, buffer))"

section \<open>Sending a response at once\<close>

definition http_send_response ::
    "kernel \<Rightarrow> int \<Rightarrow> http_status_t \<Rightarrow> bytes \<Rightarrow> int \<Rightarrow> bool \<Rightarrow> trace \<Rightarrow> (int \<times> trace) option" where
  "http_send_response k client_fd status content_type content_length keep_alive tr =
     do {
       (len, response) \<leftarrow> http_build_response_headers (Some (replicate 1024 NUL)) 1024 status
                            (Some content_type) content_length keep_alive;
       if len < 0 then Some (-1, tr)
       else
         do {
           buf \<leftarrow> response;
           (r, tr') \<leftarrow> io_send_all k client_fd buf (nat len) tr;
           (if r < 0 then Some (-1, tr')
            else if nat r \<noteq> nat len then Some (-1, tr')
            else Some (0, tr'))
         }
     }"

text \<open>The switch over the status that \<open>http_send_error\<close> and \<open>http_response_prepare_error\<close> share.\<close>

fun http_error_body :: "http_status_t \<Rightarrow> bytes option" where
  "http_error_body HTTP_STATUS_BAD_REQUEST =
     Some ''<html><body><h1>400 Bad Request</h1></body></html>''"
| "http_error_body HTTP_STATUS_FORBIDDEN =
     Some ''<html><body><h1>403 Forbidden</h1></body></html>''"
| "http_error_body HTTP_STATUS_NOT_FOUND =
     Some ''<html><body><h1>404 Not Found</h1></body></html>''"
| "http_error_body HTTP_STATUS_METHOD_NOT_ALLOWED =
     Some ''<html><body><h1>405 Method Not Allowed</h1></body></html>''"
| "http_error_body HTTP_STATUS_REQUEST_HEADER_FIELDS_TOO_LARGE =
     Some ''<html><body><h1>431 Request Header Fields Too Large</h1></body></html>''"
| "http_error_body HTTP_STATUS_INTERNAL_SERVER_ERROR =
     Some ''<html><body><h1>500 Internal Server Error</h1></body></html>''"
| "http_error_body HTTP_STATUS_OK = None"

definition http_send_error ::
    "kernel \<Rightarrow> int \<Rightarrow> http_status_t \<Rightarrow> bool \<Rightarrow> trace \<Rightarrow> (int \<times> trace) option" where
  "http_send_error k client_fd status keep_alive tr =
     (case http_error_body status of
        None \<Rightarrow> Some (-1, tr)
      | Some body \<Rightarrow>
          do {
            (r, tr1) \<leftarrow> http_send_response k client_fd status ''text/html'' (int (length body))
                          keep_alive tr;
            if r < 0 then Some (-1, tr1)
            else
              do {
                (s, tr2) \<leftarrow> io_send_all k client_fd (body @ [NUL]) (length body) tr1;
                (if s < 0 then Some (-1, tr2)
                 else if nat s \<noteq> length body then Some (-1, tr2)
                 else Some (0, tr2))
              }
          })"

definition http_send_bad_request_message ::
    "kernel \<Rightarrow> int \<Rightarrow> bytes \<Rightarrow> trace \<Rightarrow> (int \<times> trace) option" where
  "http_send_bad_request_message k client_fd message tr =
     do {
       (len, body) \<leftarrow> snprintf (replicate 512 NUL) 512
         (''<html><body><h1>400 Bad Request</h1><p>'' @ message @ ''</p></body></html>'');
       if len < 0 \<or> nat len \<ge> 512 then Some (-1, tr)
       else
         do {
           (r, tr1) \<leftarrow> http_send_response k client_fd HTTP_STATUS_BAD_REQUEST ''text/html'' len
                         False tr;
           if r < 0 then Some (-1, tr1)
           else
             do {
               (s, tr2) \<leftarrow> io_send_all k client_fd body (nat len) tr1;
               (if s < 0 then Some (-1, tr2)
                else if nat s \<noteq> nat len then Some (-1, tr2)
                else Some (0, tr2))
             }
         }
     }"

section \<open>Building and releasing the response state\<close>

definition http_response_init :: "http_response_t option \<Rightarrow> http_response_t option" where
  "http_response_init response =
     map_option (\<lambda>_. \<lparr>rs_headers = replicate HTTP_RESPONSE_HEADER_MAX NUL,
       rs_headers_length = 0, rs_headers_sent = 0,
       rs_body = None, rs_body_length = 0, rs_body_sent = 0,
       rs_file_fd = -1, rs_file_size = 0, rs_file_offset = 0,
       rs_send_body = False, rs_complete = False\<rparr>) response"

definition http_response_destroy ::
    "kernel \<Rightarrow> http_response_t option \<Rightarrow> trace \<Rightarrow> http_response_t option \<times> trace" where
  "http_response_destroy k response tr =
     (case response of
        None \<Rightarrow> (None, tr)
      | Some r \<Rightarrow>
          (case (if rs_file_fd r \<ge> 0
                 then (r\<lparr>rs_file_fd := -1\<rparr>, snd (sys k (Sys_close (rs_file_fd r)) tr))
                 else (r, tr)) of
             (r1, tr1) \<Rightarrow>
               (Some (r1\<lparr>rs_body := None,
                  rs_headers_length := 0, rs_headers_sent := 0,
                  rs_body_length := 0, rs_body_sent := 0,
                  rs_file_size := 0, rs_file_offset := 0,
                  rs_send_body := False, rs_complete := False\<rparr>), tr1)))"

definition http_response_set_body ::
    "kernel \<Rightarrow> http_response_t option \<Rightarrow> bytes option \<Rightarrow> nat \<Rightarrow> trace \<Rightarrow>
     (int \<times> http_response_t option \<times> trace) option" where
  "http_response_set_body k response body body_length tr =
     (case (response, body) of
        (Some r, Some b) \<Rightarrow>
          (case malloc k body_length tr of
             (None, tr') \<Rightarrow> Some (-1, response, tr')
           | (Some copy, tr') \<Rightarrow>
               do {
                 bs \<leftarrow> rd_bytes b 0 body_length;
                 copy' \<leftarrow> blit copy 0 bs;
                 Some (0, Some (r\<lparr>rs_body := Some copy', rs_body_length := body_length,
                                  rs_body_sent := 0\<rparr>), tr')
               })
      | _ \<Rightarrow> Some (-1, response, tr))"

definition http_response_prepare_error ::
    "kernel \<Rightarrow> http_response_t option \<Rightarrow> http_status_t \<Rightarrow> bytes option \<Rightarrow> trace \<Rightarrow>
     (int \<times> http_response_t option \<times> trace) option" where
  "http_response_prepare_error k response status message tr =
     (case response of
        None \<Rightarrow> Some (-1, None, tr)
      | Some r \<Rightarrow>
          (case http_error_body status of
             None \<Rightarrow> Some (-1, Some r, tr)
           | Some page \<Rightarrow>
               (let body = (case message of Some msg \<Rightarrow> msg | None \<Rightarrow> page)
                in do {
                     (c, r1opt, tr1) \<leftarrow> http_response_set_body k (Some r) (Some (body @ [NUL]))
                                          (length body) tr;
                     if c < 0 then Some (-1, r1opt, tr1)
                     else
                       do {
                         r1 \<leftarrow> r1opt;
                         (headers_length, hbuf) \<leftarrow>
                           http_build_response_headers (Some (rs_headers r1))
                             HTTP_RESPONSE_HEADER_MAX status (Some ''text/html'')
                             (int (length body)) False;
                         hs \<leftarrow> hbuf;
                         (if headers_length < 0
                          then Some (-1, Some (r1\<lparr>rs_headers := hs\<rparr>), tr1)
                          else Some (0, Some (r1\<lparr>rs_headers := hs,
                                 rs_headers_length := nat headers_length,
                                 rs_headers_sent := 0,
                                 rs_send_body := True, rs_complete := False\<rparr>), tr1))
                       }
                   })))"

section \<open>Sending a prepared response\<close>

text \<open>
  The three loops of \<open>http_response_send_blocking\<close>. Their result is \<open>0\<close> where the loop ran to
  its end and \<open>-1\<close> where the function returns from inside the loop, with the response as the
  loop left it.
\<close>

partial_function (option) http_send_headers_loop ::
    "kernel \<Rightarrow> int \<Rightarrow> http_response_t \<Rightarrow> trace \<Rightarrow> (int \<times> http_response_t \<times> trace) option" where
  [code]: "http_send_headers_loop k client_fd r tr =
     (if rs_headers_sent r < rs_headers_length r then
        do {
          chunk \<leftarrow> rd_bytes (rs_headers r) (rs_headers_sent r) (rs_headers_length r - rs_headers_sent r);
          (case sys k (Sys_send client_fd chunk) tr of
             (a, tr') \<Rightarrow>
               if a_ret a < 0 then
                 (if a_errno a = EINTR then http_send_headers_loop k client_fd r tr'
                  else Some (-1, r, tr'))
               else if a_ret a = 0 then Some (-1, r, tr')
               else http_send_headers_loop k client_fd
                      (r\<lparr>rs_headers_sent := rs_headers_sent r + nat (a_ret a)\<rparr>) tr')
        }
      else Some (0, r, tr))"

partial_function (option) http_send_body_loop ::
    "kernel \<Rightarrow> int \<Rightarrow> http_response_t \<Rightarrow> trace \<Rightarrow> (int \<times> http_response_t \<times> trace) option" where
  [code]: "http_send_body_loop k client_fd r tr =
     (if rs_body_sent r < rs_body_length r then
        do {
          body \<leftarrow> rs_body r;
          chunk \<leftarrow> rd_bytes body (rs_body_sent r) (rs_body_length r - rs_body_sent r);
          (case sys k (Sys_send client_fd chunk) tr of
             (a, tr') \<Rightarrow>
               if a_ret a < 0 then
                 (if a_errno a = EINTR then http_send_body_loop k client_fd r tr'
                  else Some (-1, r, tr'))
               else if a_ret a = 0 then Some (-1, r, tr')
               else http_send_body_loop k client_fd
                      (r\<lparr>rs_body_sent := rs_body_sent r + nat (a_ret a)\<rparr>) tr')
        }
      else Some (0, r, tr))"

text \<open>\<open>sendfile\<close> advances the offset it is given by the number of bytes it copied.\<close>

partial_function (option) http_send_file_loop ::
    "kernel \<Rightarrow> int \<Rightarrow> http_response_t \<Rightarrow> trace \<Rightarrow> (int \<times> http_response_t \<times> trace) option" where
  [code]: "http_send_file_loop k client_fd r tr =
     (if rs_file_offset r < rs_file_size r then
        (case sys k (Sys_sendfile client_fd (rs_file_fd r) (rs_file_offset r)
                       (rs_file_size r - rs_file_offset r)) tr of
           (a, tr') \<Rightarrow>
             if a_ret a < 0 then
               (if a_errno a = EINTR then http_send_file_loop k client_fd r tr'
                else Some (-1, r, tr'))
             else if a_ret a = 0 then Some (-1, r, tr')
             else http_send_file_loop k client_fd
                    (r\<lparr>rs_file_offset := rs_file_offset r + a_ret a\<rparr>) tr')
      else Some (0, r, tr))"

definition http_response_send_blocking ::
    "kernel \<Rightarrow> int \<Rightarrow> http_response_t option \<Rightarrow> trace \<Rightarrow>
     (int \<times> http_response_t option \<times> trace) option" where
  "http_response_send_blocking k client_fd response tr =
     (case response of
        None \<Rightarrow> Some (-1, None, tr)
      | Some r \<Rightarrow>
          if rs_complete r then Some (-1, Some r, tr)
          else
            do {
              (c1, r1, tr1) \<leftarrow> http_send_headers_loop k client_fd r tr;
              if c1 < 0 then Some (-1, Some r1, tr1)
              else if \<not> rs_send_body r1 then Some (0, Some (r1\<lparr>rs_complete := True\<rparr>), tr1)
              else
                do {
                  (c2, r2, tr2) \<leftarrow> http_send_body_loop k client_fd r1 tr1;
                  if c2 < 0 then Some (-1, Some r2, tr2)
                  else
                    do {
                      (c3, r3, tr3) \<leftarrow> (if rs_file_fd r2 \<ge> 0
                                          then http_send_file_loop k client_fd r2 tr2
                                          else Some (0, r2, tr2));
                      (if c3 < 0 then Some (-1, Some r3, tr3)
                       else Some (0, Some (r3\<lparr>rs_complete := True\<rparr>), tr3))
                    }
                }
            })"

text \<open>The response state after \<open>http_response_init\<close>.\<close>

definition fresh_response :: http_response_t where
  "fresh_response = \<lparr>rs_headers = replicate HTTP_RESPONSE_HEADER_MAX NUL,
     rs_headers_length = 0, rs_headers_sent = 0,
     rs_body = None, rs_body_length = 0, rs_body_sent = 0,
     rs_file_fd = -1, rs_file_size = 0, rs_file_offset = 0,
     rs_send_body = False, rs_complete = False\<rparr>"

lemma fresh_headers: "HTTP_RESPONSE_HEADER_MAX \<le> length (rs_headers fresh_response)"
  by (simp add: fresh_response_def)

lemma http_response_init_eq [simp]: "http_response_init (Some r) = Some fresh_response"
  by (simp add: http_response_init_def fresh_response_def)

section \<open>The loops are transfer loops\<close>

lemma send_chunk:
  "n < len \<Longrightarrow> len \<le> length d \<Longrightarrow> rd_bytes d n (len - n) = Some (take (len - n) (drop n d))"
  by (simp add: rd_bytes_def)

text \<open>
  The block a loop sends is the initialised array up to its length; positions are counted in the
  field of the response that the loop advances.
\<close>

definition headers_block :: "http_response_t \<Rightarrow> bytes" where
  "headers_block r = take (rs_headers_length r) (rs_headers r)"

definition body_block :: "http_response_t \<Rightarrow> bytes" where
  "body_block r = (case rs_body r of None \<Rightarrow> [] | Some b \<Rightarrow> take (rs_body_length r) b)"

definition headers_fin ::
    "http_response_t \<Rightarrow> xfer_end \<Rightarrow> nat \<Rightarrow> trace \<Rightarrow> int \<times> http_response_t \<times> trace" where
  "headers_fin r e m tr = (if e = Finished then 0 else -1, r\<lparr>rs_headers_sent := m\<rparr>, tr)"

definition body_fin ::
    "http_response_t \<Rightarrow> xfer_end \<Rightarrow> nat \<Rightarrow> trace \<Rightarrow> int \<times> http_response_t \<times> trace" where
  "body_fin r e m tr = (if e = Finished then 0 else -1, r\<lparr>rs_body_sent := m\<rparr>, tr)"

definition file_fin ::
    "http_response_t \<Rightarrow> xfer_end \<Rightarrow> nat \<Rightarrow> trace \<Rightarrow> int \<times> http_response_t \<times> trace" where
  "file_fin r e m tr = (if e = Finished then 0 else -1, r\<lparr>rs_file_offset := int m\<rparr>, tr)"

interpretation hdr_loop: transfer_loop k
  "\<lambda>n. Sys_send fd (take (length d - n) (drop n d))" "length d" True d content fd
  "headers_fin (r\<lparr>rs_headers := d @ x, rs_headers_length := length d\<rparr>)"
  "\<lambda>n. http_send_headers_loop k fd
     (r\<lparr>rs_headers := d @ x, rs_headers_length := length d, rs_headers_sent := n\<rparr>)"
  for k fd d content r x
proof unfold_locales
  fix n tr
  let ?r = "\<lambda>n. r\<lparr>rs_headers := d @ x, rs_headers_length := length d, rs_headers_sent := n\<rparr>"
  let ?c = "Sys_send fd (take (length d - n) (drop n d))"
  have "rd_bytes (d @ x) n (length d - n) = Some (take (length d - n) (drop n d))"
    if "n < length d" using that by (simp add: rd_bytes_def)
  then show "http_send_headers_loop k fd (?r n) tr =
    (if n < length d then
       let a = k tr ?c; tr' = tr @ [(?c, a)]
       in if a_ret a < 0 then
            if True \<and> a_errno a = EINTR then http_send_headers_loop k fd (?r n) tr'
            else Some (headers_fin (r\<lparr>rs_headers := d @ x, rs_headers_length := length d\<rparr>) Failed n tr')
          else if a_ret a = 0
          then Some (headers_fin (r\<lparr>rs_headers := d @ x, rs_headers_length := length d\<rparr>) Stalled n tr')
          else http_send_headers_loop k fd (?r (n + nat (a_ret a))) tr'
     else Some (headers_fin (r\<lparr>rs_headers := d @ x, rs_headers_length := length d\<rparr>) Finished n tr))"
    by (subst http_send_headers_loop.simps) (simp add: sys_def headers_fin_def Let_def)
qed (simp, erule send_chunk_emits, simp)

interpretation body_loop: transfer_loop k
  "\<lambda>n. Sys_send fd (take (length d - n) (drop n d))" "length d" True d content fd
  "body_fin (r\<lparr>rs_body := Some (d @ x), rs_body_length := length d\<rparr>)"
  "\<lambda>n. http_send_body_loop k fd
     (r\<lparr>rs_body := Some (d @ x), rs_body_length := length d, rs_body_sent := n\<rparr>)"
  for k fd d content r x
proof unfold_locales
  fix n tr
  let ?r = "\<lambda>n. r\<lparr>rs_body := Some (d @ x), rs_body_length := length d, rs_body_sent := n\<rparr>"
  let ?c = "Sys_send fd (take (length d - n) (drop n d))"
  have "rd_bytes (d @ x) n (length d - n) = Some (take (length d - n) (drop n d))"
    if "n < length d" using that by (simp add: rd_bytes_def)
  then show "http_send_body_loop k fd (?r n) tr =
    (if n < length d then
       let a = k tr ?c; tr' = tr @ [(?c, a)]
       in if a_ret a < 0 then
            if True \<and> a_errno a = EINTR then http_send_body_loop k fd (?r n) tr'
            else Some (body_fin (r\<lparr>rs_body := Some (d @ x), rs_body_length := length d\<rparr>) Failed n tr')
          else if a_ret a = 0
          then Some (body_fin (r\<lparr>rs_body := Some (d @ x), rs_body_length := length d\<rparr>) Stalled n tr')
          else http_send_body_loop k fd (?r (n + nat (a_ret a))) tr'
     else Some (body_fin (r\<lparr>rs_body := Some (d @ x), rs_body_length := length d\<rparr>) Finished n tr))"
    by (subst http_send_body_loop.simps) (simp add: sys_def body_fin_def Let_def)
qed (simp, erule send_chunk_emits, simp)

interpretation file_loop: transfer_loop k
  "\<lambda>n. Sys_sendfile fd (rs_file_fd r) (int n) (int len - int n)" len True
  "content (rs_file_fd r)" content fd
  "file_fin (r\<lparr>rs_file_size := int len\<rparr>)"
  "\<lambda>n. http_send_file_loop k fd (r\<lparr>rs_file_size := int len, rs_file_offset := int n\<rparr>)"
  for k fd len content r
  by unfold_locales
    (subst http_send_file_loop.simps, simp_all add: sys_def file_fin_def Let_def)

lemma sendfile_chunk_bounded:
  "sendfile_bounded k \<Longrightarrow> xfer_bounded k (\<lambda>n. Sys_sendfile fd f (int n) (int len - int n)) len"
  unfolding sendfile_bounded_def xfer_bounded_def
proof (intro allI)
  fix tr n
  assume "\<forall>tr s f off n. a_ret (k tr (Sys_sendfile s f off n)) \<le> n"
  then have "a_ret (k tr (Sys_sendfile fd f (int n) (int len - int n))) \<le> int len - int n" by blast
  then show "a_ret (k tr (Sys_sendfile fd f (int n) (int len - int n))) \<le> int (len - n)" by linarith
qed

section \<open>What a response puts on the wire\<close>

text \<open>The result every loop and the whole send function share: code, new trace and bytes sent.\<close>

definition sends :: "(int \<Rightarrow> bytes) \<Rightarrow> int \<Rightarrow> bytes \<Rightarrow> int \<Rightarrow> trace \<Rightarrow> bool" where
  "sends content fd payload c ev \<longleftrightarrow>
     (c = 0 \<and> sent content fd ev = payload \<or>
      c = -1 \<and> prefix (sent content fd ev) payload \<and> list_ex (refused True) ev) \<and>
     list_all (\<lambda>x. data_call (fst x)) ev"

lemma sends_append:
  "sends content fd p 0 ev \<Longrightarrow> sends content fd q c ev' \<Longrightarrow> sends content fd (p @ q) c (ev @ ev')"
  by (auto simp: sends_def trace_simps)

lemma sends_stop:
  "sends content fd p (-1) ev \<Longrightarrow> sends content fd (p @ q) (-1) ev"
  by (auto simp: sends_def intro: prefix_order.trans)

lemma outcome_sends:
  assumes "xfer_outcome True content fd payload len fin 0 tr r"
  obtains e m ev where "r = fin e m (tr @ ev)"
    and "sends content fd (take len payload) (if e = Finished then 0 else -1) ev"
proof -
  from assms obtain e m ev where r: "r = fin e m (tr @ ev)" and m: "m \<le> len" "e = Finished \<longleftrightarrow> m = len"
    and ev: "sent content fd ev = take m payload" "list_all (\<lambda>x. data_call (fst x)) ev"
      "e \<noteq> Finished \<longrightarrow> list_ex (refused True) ev"
    by (auto simp: xfer_outcome_def)
  have "prefix (take m payload) (take len payload)"
    using m(1) by (metis min.absorb1 take_is_prefix take_take)
  with r m ev show thesis by (intro that [of e m ev]) (auto simp: sends_def)
qed

lemma http_send_headers_total:
  assumes "send_bounded k" "retry_fair k"
    and "rs_headers_sent r = 0" "rs_headers_length r \<le> length (rs_headers r)"
  shows "\<exists>c m ev. http_send_headers_loop k fd r tr = Some (c, r\<lparr>rs_headers_sent := m\<rparr>, tr @ ev) \<and>
    sends content fd (headers_block r) c ev"
proof -
  let ?d = "headers_block r" and ?x = "drop (rs_headers_length r) (rs_headers r)"
  have len: "length ?d = rs_headers_length r" using assms(4) by (simp add: headers_block_def)
  have r: "r\<lparr>rs_headers := ?d @ ?x, rs_headers_length := length ?d\<rparr> = r"
    unfolding len by (simp add: headers_block_def)
  have "\<exists>y. http_send_headers_loop k fd
        (r\<lparr>rs_headers := ?d @ ?x, rs_headers_length := length ?d, rs_headers_sent := 0\<rparr>) tr = Some y \<and>
      xfer_outcome True content fd ?d (length ?d)
        (headers_fin (r\<lparr>rs_headers := ?d @ ?x, rs_headers_length := length ?d\<rparr>)) 0 tr y"
    by (rule hdr_loop.total) (simp_all only: assms send_chunk_bounded le0)
  moreover have "r\<lparr>rs_headers_sent := 0\<rparr> = r" using assms(3) by (cases r) simp
  ultimately obtain y where y: "http_send_headers_loop k fd r tr = Some y"
    "xfer_outcome True content fd ?d (length ?d) (headers_fin r) 0 tr y" unfolding r by auto
  from y(2) show ?thesis
    by (rule outcome_sends) (use y(1) in \<open>auto simp: headers_fin_def\<close>)
qed

lemma http_send_body_total:
  assumes "send_bounded k" "retry_fair k"
    and "rs_body_sent r = 0"
    and "(case rs_body r of None \<Rightarrow> rs_body_length r = 0 | Some b \<Rightarrow> rs_body_length r \<le> length b)"
  shows "\<exists>c m ev. http_send_body_loop k fd r tr = Some (c, r\<lparr>rs_body_sent := m\<rparr>, tr @ ev) \<and>
    sends content fd (body_block r) c ev"
proof (cases "rs_body r")
  case None
  with assms have "http_send_body_loop k fd r tr = Some (0, r\<lparr>rs_body_sent := 0\<rparr>, tr @ [])"
    by (subst http_send_body_loop.simps) simp
  moreover have "sends content fd (body_block r) 0 []"
    using None by (simp add: sends_def body_block_def trace_simps)
  ultimately show ?thesis by blast
next
  case (Some b)
  let ?d = "body_block r" and ?x = "drop (rs_body_length r) b"
  have len: "length ?d = rs_body_length r" using assms(4) Some by (simp add: body_block_def)
  have r: "r\<lparr>rs_body := Some (?d @ ?x), rs_body_length := length ?d\<rparr> = r"
    unfolding len by (simp add: body_block_def Some)
  have "\<exists>y. http_send_body_loop k fd
        (r\<lparr>rs_body := Some (?d @ ?x), rs_body_length := length ?d, rs_body_sent := 0\<rparr>) tr = Some y \<and>
      xfer_outcome True content fd ?d (length ?d)
        (body_fin (r\<lparr>rs_body := Some (?d @ ?x), rs_body_length := length ?d\<rparr>)) 0 tr y"
    by (rule body_loop.total) (simp_all only: assms send_chunk_bounded le0)
  moreover have "r\<lparr>rs_body_sent := 0\<rparr> = r" using assms(3) by (cases r) simp
  ultimately obtain y where y: "http_send_body_loop k fd r tr = Some y"
    "xfer_outcome True content fd ?d (length ?d) (body_fin r) 0 tr y" unfolding r by auto
  from y(2) show ?thesis
    by (rule outcome_sends) (use y(1) in \<open>auto simp: body_fin_def\<close>)
qed

text \<open>The bytes of the open file that the response announces.\<close>

definition file_block :: "(int \<Rightarrow> bytes) \<Rightarrow> http_response_t \<Rightarrow> bytes" where
  "file_block content r =
     (if rs_file_fd r \<ge> 0 then take (nat (rs_file_size r)) (content (rs_file_fd r)) else [])"

lemma http_send_file_total:
  assumes "sendfile_bounded k" "retry_fair k"
    and "rs_file_offset r = 0" "0 \<le> rs_file_size r" "0 \<le> rs_file_fd r"
  shows "\<exists>c m ev. http_send_file_loop k fd r tr = Some (c, r\<lparr>rs_file_offset := m\<rparr>, tr @ ev) \<and>
    sends content fd (file_block content r) c ev"
proof -
  let ?n = "nat (rs_file_size r)"
  have r: "r\<lparr>rs_file_size := int ?n\<rparr> = r" using assms(4) by simp
  have "\<exists>y. http_send_file_loop k fd (r\<lparr>rs_file_size := int ?n, rs_file_offset := int 0\<rparr>) tr = Some y \<and>
      xfer_outcome True content fd (content (rs_file_fd r)) ?n (file_fin (r\<lparr>rs_file_size := int ?n\<rparr>)) 0 tr y"
    by (rule file_loop.total) (simp_all only: assms sendfile_chunk_bounded le0)
  moreover have "r\<lparr>rs_file_offset := int 0\<rparr> = r" using assms(3) by (cases r) simp
  ultimately obtain y where y: "http_send_file_loop k fd r tr = Some y"
    "xfer_outcome True content fd (content (rs_file_fd r)) ?n (file_fin r) 0 tr y" unfolding r by auto
  from y(2) show ?thesis
    by (rule outcome_sends) (use y(1) assms(5) in \<open>auto simp: file_fin_def file_block_def\<close>)
qed

text \<open>A response that is built and not yet sent, and all the bytes it stands for.\<close>

definition response_ready :: "http_response_t \<Rightarrow> bool" where
  "response_ready r \<longleftrightarrow>
     \<not> rs_complete r \<and>
     rs_headers_sent r = 0 \<and> rs_headers_length r \<le> length (rs_headers r) \<and>
     rs_body_sent r = 0 \<and>
     (case rs_body r of None \<Rightarrow> rs_body_length r = 0 | Some b \<Rightarrow> rs_body_length r \<le> length b) \<and>
     rs_file_offset r = 0 \<and> 0 \<le> rs_file_size r"

definition response_payload :: "(int \<Rightarrow> bytes) \<Rightarrow> http_response_t \<Rightarrow> bytes" where
  "response_payload content r =
     headers_block r @ (if rs_send_body r then body_block r @ file_block content r else [])"

lemma http_response_send_blocking_total:
  assumes "send_bounded k" "sendfile_bounded k" "retry_fair k" "response_ready r"
  shows "\<exists>c r' ev. http_response_send_blocking k fd (Some r) tr = Some (c, Some r', tr @ ev) \<and>
    sends content fd (response_payload content r) c ev \<and>
    rs_complete r' = (c = 0) \<and> rs_file_fd r' = rs_file_fd r \<and> rs_body r' = rs_body r"
proof -
  note ready = assms(4) [unfolded response_ready_def]
  obtain c1 m1 ev1 where h: "http_send_headers_loop k fd r tr = Some (c1, r\<lparr>rs_headers_sent := m1\<rparr>, tr @ ev1)"
    "sends content fd (headers_block r) c1 ev1"
    using http_send_headers_total [OF assms(1,3), of r fd tr content] ready by auto
  let ?r1 = "r\<lparr>rs_headers_sent := m1\<rparr>"
  obtain c2 m2 ev2 where b: "http_send_body_loop k fd ?r1 (tr @ ev1) =
      Some (c2, ?r1\<lparr>rs_body_sent := m2\<rparr>, (tr @ ev1) @ ev2)"
    "sends content fd (body_block r) c2 ev2"
    using http_send_body_total [OF assms(1,3), of ?r1 fd "tr @ ev1" content] ready
    by (auto simp: body_block_def cong: option.case_cong)
  let ?r2 = "?r1\<lparr>rs_body_sent := m2\<rparr>" and ?t2 = "(tr @ ev1) @ ev2"
  have "\<exists>c3 m3 ev3. (if rs_file_fd ?r2 \<ge> 0 then http_send_file_loop k fd ?r2 ?t2 else Some (0, ?r2, ?t2)) =
      Some (c3, ?r2\<lparr>rs_file_offset := m3\<rparr>, ?t2 @ ev3) \<and> sends content fd (file_block content r) c3 ev3"
  proof (cases "rs_file_fd r \<ge> 0")
    case True
    then show ?thesis
      using http_send_file_total [OF assms(2,3), of ?r2 fd ?t2 content] ready
      by (auto simp: file_block_def)
  next
    case False
    moreover have "?r2\<lparr>rs_file_offset := 0\<rparr> = ?r2" using ready by (cases r) simp
    ultimately show ?thesis
      by (intro exI [of _ 0] exI [of _ "[]"]) (simp add: sends_def file_block_def trace_simps)
  qed
  then obtain c3 m3 ev3 where f: "(if rs_file_fd ?r2 \<ge> 0 then http_send_file_loop k fd ?r2 ?t2
        else Some (0, ?r2, ?t2)) = Some (c3, ?r2\<lparr>rs_file_offset := m3\<rparr>, ?t2 @ ev3)"
    "sends content fd (file_block content r) c3 ev3" by blast
  have codes: "c1 = 0 \<or> c1 = -1" "c2 = 0 \<or> c2 = -1" "c3 = 0 \<or> c3 = -1"
    using h(2) b(2) f(2) by (auto simp: sends_def)
  have unfold: "http_response_send_blocking k fd (Some r) tr =
      (if c1 < 0 then Some (-1, Some ?r1, tr @ ev1)
       else if \<not> rs_send_body r then Some (0, Some (?r1\<lparr>rs_complete := True\<rparr>), tr @ ev1)
       else if c2 < 0 then Some (-1, Some ?r2, tr @ ev1 @ ev2)
       else if c3 < 0 then Some (-1, Some (?r2\<lparr>rs_file_offset := m3\<rparr>), tr @ ev1 @ ev2 @ ev3)
       else Some (0, Some (?r2\<lparr>rs_file_offset := m3, rs_complete := True\<rparr>), tr @ ev1 @ ev2 @ ev3))"
    using ready h(1) b(1) f(1) by (auto simp: http_response_send_blocking_def)
  consider "c1 < 0" | "c1 = 0" "\<not> rs_send_body r" | "c1 = 0" "rs_send_body r" "c2 < 0"
    | "c1 = 0" "rs_send_body r" "c2 = 0" using codes by force
  then show ?thesis
    by cases (use unfold codes ready h(2) b(2) f(2) sends_append sends_stop in
        \<open>force simp: response_payload_def\<close>)+
qed

section \<open>Header blocks always fit\<close>

lemma fmt_d_length:
  assumes "0 \<le> n" "n < 2 ^ 63"
  shows "length (fmt_d n) \<le> 19"
proof -
  have "nat n < 2 ^ 63" using assms by (simp add: nat_less_iff)
  also have "(2 ^ 63 :: nat) < 10 ^ Suc 18" by simp
  finally show ?thesis using assms(1) dec_str_length [of "nat n" 18] by (simp add: fmt_d_def)
qed

lemma response_head_length:
  assumes "0 \<le> n" "n < 2 ^ 63"
  shows "length (response_head status ct n ka) \<le> 125 + length ct"
proof -
  have "length (fmt_d (http_status_code status)) \<le> 3"
    using dec_str_length [of "nat (http_status_code status)" 2]
    by (cases status) (simp_all add: fmt_d_def)
  moreover have "length (http_status_reason status) \<le> 31" by (cases status) simp_all
  ultimately show ?thesis using fmt_d_length [OF assms] by (simp add: response_head_def)
qed

text \<open>The object \<open>b\<close> after the text \<open>h\<close> and its terminator were written at its start.\<close>

definition overwritten :: "bytes \<Rightarrow> bytes \<Rightarrow> bytes" where
  "overwritten b h = h @ NUL # drop (Suc (length h)) b"

lemma overwritten_simps [simp]:
  "take (length h) (overwritten b h) = h" "length h \<le> length (overwritten b h)"
  by (simp_all add: overwritten_def)

lemma http_build_response_headers_fits:
  assumes "0 \<le> n" "n < 2 ^ 63" "length ct < 800" "HTTP_RESPONSE_HEADER_MAX \<le> length b"
  shows "http_build_response_headers (Some b) HTTP_RESPONSE_HEADER_MAX status (Some ct) n ka =
    Some (int (length (response_head status ct n ka)),
      Some (overwritten b (response_head status ct n ka)))"
  using response_head_length [OF assms(1,2), of status ct ka] assms(1,3,4)
  by (simp add: http_build_response_headers_def snprintf_def blit_def overwritten_def
      HTTP_RESPONSE_HEADER_MAX_def INT_MAX_def)

section \<open>Error responses\<close>

lemma min_pad: "min a n + (n - a) = (n :: nat)"
  by simp

text \<open>
  The page a client is promised for a status: the message where there is one, and otherwise a
  heading with the code and the reason phrase of the status line.
\<close>

definition error_page :: "http_status_t \<Rightarrow> bytes option \<Rightarrow> bytes" where
  "error_page status message =
     (case message of Some msg \<Rightarrow> msg
      | None \<Rightarrow> ''<html><body><h1>'' @ fmt_d (http_status_code status) @ '' '' @
                http_status_reason status @ ''</h1></body></html>'')"

lemma fmt_d_status:
  "fmt_d 200 = ''200''" "fmt_d 400 = ''400''" "fmt_d 403 = ''403''" "fmt_d 404 = ''404''"
  "fmt_d 405 = ''405''" "fmt_d 431 = ''431''" "fmt_d 500 = ''500''"
  by code_simp+

text \<open>The constant pages of the code are the pages of that specification.\<close>

lemma http_error_body_eq:
  "status \<noteq> HTTP_STATUS_OK \<Longrightarrow> http_error_body status = Some (error_page status None)"
  by (cases status) (simp_all add: error_page_def fmt_d_status)

lemma http_response_prepare_error_eq:
  assumes "status \<noteq> HTTP_STATUS_OK" "length (error_page status message) < 2 ^ 63"
    and "HTTP_RESPONSE_HEADER_MAX \<le> length (rs_headers r)"
  shows "http_response_prepare_error k (Some r) status message tr =
    (let page = error_page status message; head = response_head status ''text/html'' (int (length page)) False;
         c = Sys_malloc (length page); a = k tr c
     in if a_ret a < 0 then Some (-1, Some r, tr @ [(c, a)])
        else Some (0, Some (r\<lparr>rs_headers := overwritten (rs_headers r) head, rs_headers_length := length head,
               rs_headers_sent := 0, rs_body := Some page, rs_body_length := length page,
               rs_body_sent := 0, rs_send_body := True, rs_complete := False\<rparr>), tr @ [(c, a)]))"
proof -
  let ?page = "error_page status message"
  let ?html = "error_page status None"
  have page: "http_error_body status = Some ?html" using assms(1) by (rule http_error_body_eq)
  have "(case message of None \<Rightarrow> ?html | Some msg \<Rightarrow> msg) = ?page"
    by (simp add: error_page_def split: option.splits)
  moreover have "http_build_response_headers (Some (rs_headers r)) HTTP_RESPONSE_HEADER_MAX status
      (Some ''text/html'') (int (length ?page)) False =
      Some (int (length (response_head status ''text/html'' (int (length ?page)) False)),
        Some (overwritten (rs_headers r) (response_head status ''text/html'' (int (length ?page)) False)))"
    using assms(2,3) by (intro http_build_response_headers_fits) (auto simp: less_imp_of_nat_less)
  ultimately show ?thesis
    by (simp add: http_response_prepare_error_def page http_response_set_body_def malloc_def sys_def
        rd_bytes_def blit_def min_pad Let_def)
qed

section \<open>Sending a response at once, in full\<close>

lemma http_build_response_headers_1024:
  assumes "0 \<le> n" "n < 2 ^ 63" "length ct < 800" "1024 \<le> length b"
  shows "http_build_response_headers (Some b) 1024 status (Some ct) n ka =
    Some (int (length (response_head status ct n ka)),
      Some (overwritten b (response_head status ct n ka)))"
  using assms by (rule http_build_response_headers_fits [unfolded HTTP_RESPONSE_HEADER_MAX_def])

lemma io_send_all_sends:
  assumes "send_bounded k" "retry_fair k"
  shows "\<exists>r ev. io_send_all k fd (d @ rest) (length d) tr = Some (r, tr @ ev) \<and>
    sends content fd d (if r = int (length d) then 0 else -1) ev"
proof -
  have "\<exists>r. io_send_all_loop k fd (d @ rest) (length d) 0 tr = Some r \<and>
      xfer_outcome True content fd d (length d) io_fin 0 tr r"
    by (rule io_send.total) (simp_all only: assms send_chunk_bounded le0)
  then obtain r where r: "io_send_all k fd (d @ rest) (length d) tr = Some r"
    "xfer_outcome True content fd d (length d) io_fin 0 tr r"
    by (auto simp: io_send_all_def)
  from r(2) obtain e m ev where "r = io_fin e m (tr @ ev)"
    "m \<le> length d" "e = Finished \<longleftrightarrow> m = length d" "sent content fd ev = take m d"
    "list_all (\<lambda>x. data_call (fst x)) ev" "e \<noteq> Finished \<longrightarrow> list_ex (refused True) ev"
    unfolding xfer_outcome_def by auto
  with r(1) show ?thesis
    by (auto simp: io_fin_def sends_def take_is_prefix split: if_splits)
qed

lemma http_send_response_sends:
  assumes "send_bounded k" "retry_fair k" "0 \<le> n" "n < 2 ^ 63" "length ct < 800"
  shows "\<exists>c ev. http_send_response k fd status ct n ka tr = Some (c, tr @ ev) \<and>
    sends content fd (response_head status ct n ka) c ev"
proof -
  let ?h = "response_head status ct n ka"
  obtain r ev where "io_send_all k fd (overwritten (replicate 1024 NUL) ?h) (length ?h) tr =
      Some (r, tr @ ev)"
    "sends content fd ?h (if r = int (length ?h) then 0 else -1) ev"
    using io_send_all_sends [OF assms(1,2), of fd ?h _ tr content] unfolding overwritten_def by blast
  then show ?thesis
    by (auto simp: http_send_response_def http_build_response_headers_1024 [OF assms(3-5)]
        nat_eq_iff split: if_splits)
qed

text \<open>The whole error response that \<open>http_send_error\<close> sends.\<close>

lemma http_send_error_sends:
  assumes "send_bounded k" "retry_fair k" "http_error_body status = Some page"
  shows "\<exists>c ev. http_send_error k fd status ka tr = Some (c, tr @ ev) \<and>
    sends content fd (response_head status ''text/html'' (int (length page)) ka @ page) c ev"
proof -
  let ?h = "response_head status ''text/html'' (int (length page)) ka"
  have "int (length page) < 2 ^ 63" using assms(3) by (cases status) auto
  then obtain c ev where h: "http_send_response k fd status ''text/html'' (int (length page)) ka tr =
      Some (c, tr @ ev)" "sends content fd ?h c ev"
    using http_send_response_sends [OF assms(1,2), of "int (length page)" "''text/html''"] by fastforce
  obtain r ev' where b: "io_send_all k fd (page @ [NUL]) (length page) (tr @ ev) = Some (r, (tr @ ev) @ ev')"
    "sends content fd page (if r = int (length page) then 0 else -1) ev'"
    using io_send_all_sends [OF assms(1,2), of fd page "[NUL]" "tr @ ev" content] by blast
  have "c = 0 \<or> c = -1" using h(2) by (auto simp: sends_def)
  then show ?thesis
  proof
    assume "c = -1"
    with h assms(3) sends_stop [of content fd ?h ev page] show ?thesis by (auto simp: http_send_error_def)
  next
    assume "c = 0"
    with h b assms(3) sends_append [of content fd ?h ev page _ ev'] show ?thesis
      by (auto simp: http_send_error_def nat_eq_iff split: if_splits)
  qed
qed

text \<open>A whole error response: its header block and its page.\<close>

definition error_response :: "http_status_t \<Rightarrow> bytes option \<Rightarrow> bytes" where
  "error_response status message =
     (let page = error_page status message
      in response_head status ''text/html'' (int (length page)) False @ page)"

lemma http_send_error_status:
  assumes "send_bounded k" "retry_fair k" "status \<noteq> HTTP_STATUS_OK"
  shows "\<exists>c ev. http_send_error k fd status False tr = Some (c, tr @ ev) \<and>
    (\<forall>content. sends content fd (error_response status None) c ev)"
proof -
  let ?page = "error_page status None"
  have resp: "error_response status None =
      response_head status ''text/html'' (int (length ?page)) False @ ?page"
    by (simp add: error_response_def Let_def)
  note sends = http_send_error_sends [OF assms(1,2) http_error_body_eq [OF assms(3)], of fd False tr,
      folded resp]
  from sends obtain c ev where run: "http_send_error k fd status False tr = Some (c, tr @ ev)" by blast
  then have "sends content fd (error_response status None) c ev" for content
    using sends [of content] by auto
  with run show ?thesis by blast
qed

section \<open>Properties\<close>

text \<open>
  C24: The header block of every response the server builds fits the 1024 bytes reserved for it:
  for any status, any length an \<open>off_t\<close> can hold and any content type of less than 800 bytes,
  \<open>http_build_response_headers\<close> stores the complete block and its terminator at the start of the
  buffer, leaves the rest of it as it was, writes nothing behind it, and returns the length.
\<close>

theorem http_build_response_headers_fit:
  assumes "0 \<le> n" "n < 2 ^ 63" "length ct < 800" "HTTP_RESPONSE_HEADER_MAX \<le> length b"
  shows "http_build_response_headers (Some b) HTTP_RESPONSE_HEADER_MAX status (Some ct) n ka =
    Some (int (length (response_head status ct n ka)),
      Some (response_head status ct n ka @ NUL # drop (Suc (length (response_head status ct n ka))) b))"
  using http_build_response_headers_fits [OF assms] by (simp add: overwritten_def)

theorem http_build_response_headers_fit_witness:
  "http_build_response_headers (Some (replicate 1024 NUL)) HTTP_RESPONSE_HEADER_MAX HTTP_STATUS_OK
      (Some ''text/plain'') (2 ^ 62) True =
    Some (int (length (response_head HTTP_STATUS_OK ''text/plain'' (2 ^ 62) True)),
      Some (response_head HTTP_STATUS_OK ''text/plain'' (2 ^ 62) True @
        NUL # drop (Suc (length (response_head HTTP_STATUS_OK ''text/plain'' (2 ^ 62) True)))
                (replicate 1024 NUL)))"
  by (rule http_build_response_headers_fit) (simp_all add: HTTP_RESPONSE_HEADER_MAX_def)

text \<open>
  C25: \<open>http_response_prepare_error\<close> prepares, for each status it knows, a response that is ready to
  be sent and whose bytes are the status line, the headers with the exact length of the page,
  and the page itself (the given message where there is one); it fails only where \<open>malloc\<close> does,
  and then leaves the response as it was.
\<close>

theorem http_response_prepare_error_correct:
  assumes "status \<noteq> HTTP_STATUS_OK" "length (error_page status message) < 2 ^ 63"
    and "HTTP_RESPONSE_HEADER_MAX \<le> length (rs_headers r)"
    and "rs_file_fd r = -1" "rs_file_offset r = 0" "rs_file_size r = 0"
  shows "\<exists>c r' a. http_response_prepare_error k (Some r) status message tr =
      Some (c, Some r', tr @ [(Sys_malloc (length (error_page status message)), a)]) \<and>
    (if a_ret a < 0 then c = -1 \<and> r' = r
     else c = 0 \<and> response_ready r' \<and>
       (\<forall>content. response_payload content r' = error_response status message))"
  using assms http_response_prepare_error_eq [OF assms(1-3), of k tr]
  by (auto simp: Let_def response_ready_def response_payload_def headers_block_def body_block_def
      file_block_def error_response_def overwritten_def)

theorem http_response_prepare_error_correct_witness:
  "\<exists>c r' a. http_response_prepare_error example_kernel (Some fresh_response) HTTP_STATUS_NOT_FOUND
        None [] =
      Some (c, Some r', [] @ [(Sys_malloc (length (error_page HTTP_STATUS_NOT_FOUND None)), a)]) \<and>
    (if a_ret a < 0 then c = -1 \<and> r' = fresh_response
     else c = 0 \<and> response_ready r' \<and>
       (\<forall>content. response_payload content r' = error_response HTTP_STATUS_NOT_FOUND None))"
  by (rule http_response_prepare_error_correct)
    (simp_all add: error_page_def fresh_response_def fmt_d_status)

text \<open>
  C12: Sending a prepared response returns for every behaviour of the socket and of \<open>sendfile\<close>. On
  success the client has received exactly the header block, followed by the body and the
  announced bytes of the file where \<open>send_body\<close> is set and by nothing where it is not, and the
  response is marked complete; on failure, which only a refused call causes, it has received a
  prefix of that and the response stays incomplete.
\<close>

theorem http_response_send_blocking_correct:
  assumes "send_bounded k" "sendfile_bounded k" "retry_fair k" "response_ready r"
  shows "\<exists>c r' ev. http_response_send_blocking k fd (Some r) tr = Some (c, Some r', tr @ ev) \<and>
    (c = 0 \<and> sent content fd ev = response_payload content r \<and> rs_complete r' \<or>
     c = -1 \<and> prefix (sent content fd ev) (response_payload content r) \<and> \<not> rs_complete r' \<and>
       list_ex (refused True) ev) \<and>
    rs_file_fd r' = rs_file_fd r \<and> opened ev = {#} \<and> closed ev = {#}"
proof -
  obtain c r' ev where run: "http_response_send_blocking k fd (Some r) tr = Some (c, Some r', tr @ ev)"
    "sends content fd (response_payload content r) c ev" "rs_complete r' = (c = 0)"
    "rs_file_fd r' = rs_file_fd r"
    using http_response_send_blocking_total [OF assms, of fd tr content] by blast
  moreover from run(2) have "opened ev = {#} \<and> closed ev = {#}"
    using data_call_balance [of ev] by (simp add: sends_def)
  ultimately show ?thesis by (fastforce simp: sends_def)
qed

theorem http_response_send_blocking_correct_witness:
  "\<exists>c r' ev. http_response_send_blocking example_kernel 5 (Some (fresh_response\<lparr>rs_headers_length := 3\<rparr>)) [] =
      Some (c, Some r', [] @ ev) \<and>
    (c = 0 \<and> sent example_content 5 ev =
        response_payload example_content (fresh_response\<lparr>rs_headers_length := 3\<rparr>) \<and> rs_complete r' \<or>
     c = -1 \<and> prefix (sent example_content 5 ev)
        (response_payload example_content (fresh_response\<lparr>rs_headers_length := 3\<rparr>)) \<and>
       \<not> rs_complete r' \<and> list_ex (refused True) ev) \<and>
    rs_file_fd r' = rs_file_fd (fresh_response\<lparr>rs_headers_length := 3\<rparr>) \<and>
    opened ev = {#} \<and> closed ev = {#}"
  by (rule http_response_send_blocking_correct)
    (simp_all add: response_ready_def fresh_response_def HTTP_RESPONSE_HEADER_MAX_def)

end
