(* ===== verification/Http_Parse.thy ===== *)
theory Http_Parse
  imports Http_Types "HOL-Library.Word"
begin

unbundle bit_operations_syntax

text \<open>
  \<open>src/http_parse.c\<close>: the request parser, on the memory model of the prelude. Pointers into the
  request buffer are offsets; every read of the buffer and every write to a fixed-size array is
  checked.
\<close>

section \<open>Percent decoding\<close>

definition http_hex_value :: "char \<Rightarrow> int" where
  "http_hex_value c =
     (if schar c \<ge> schar CHR ''0'' \<and> schar c \<le> schar CHR ''9'' then schar c - schar CHR ''0''
      else if schar c \<ge> schar CHR ''a'' \<and> schar c \<le> schar CHR ''f'' then schar c - schar CHR ''a'' + 10
      else if schar c \<ge> schar CHR ''A'' \<and> schar c \<le> schar CHR ''F'' then schar c - schar CHR ''A'' + 10
      else -1)"

text \<open>\<open>(unsigned char)((high << 4) | low)\<close>\<close>

definition http_hex_byte :: "int \<Rightarrow> int \<Rightarrow> 8 word" where
  "http_hex_byte high low = word_of_int (push_bit 4 high OR low)"

text \<open>
  The loop of \<open>http_decode_path\<close>: \<open>encoded\<close> is the source object, \<open>src\<close> the read position and
  \<open>decoded\<close> the bytes written so far, so that \<open>dst\<close> is its length. Every write at \<open>dst\<close> must stay
  within the \<open>decoded_size\<close> bytes of the target.
\<close>

function http_decode_loop :: "bytes \<Rightarrow> nat \<Rightarrow> nat \<Rightarrow> bytes \<Rightarrow> (int \<times> bytes) option" where
  "http_decode_loop encoded decoded_size src decoded =
     do {
       c \<leftarrow> rd encoded src;
       if c = NUL then (if length decoded < decoded_size then Some (0, decoded) else None)
       else if length decoded + 1 \<ge> decoded_size then Some (-1, decoded)
       else if c = CHR ''%'' then
         do {
           h \<leftarrow> rd encoded (src + 1);
           if h = NUL then Some (-1, decoded)
           else
             do {
               l \<leftarrow> rd encoded (src + 2);
               if l = NUL then Some (-1, decoded)
               else if http_hex_value h < 0 \<or> http_hex_value l < 0 then Some (-1, decoded)
               else
                 (let v = http_hex_byte (http_hex_value h) (http_hex_value l)
                  in if v = 0 \<or> v < 32 \<or> v = 127 then Some (-1, decoded)
                     else
                       do {
                         decoded' \<leftarrow> fill decoded_size (decoded @ [char_of (unat v)]);
                         http_decode_loop encoded decoded_size (src + 3) decoded'
                       })
             }
         }
       else
         (let v = (word_of_int (uchar c) :: 8 word)
          in if v = 0 \<or> v < 32 \<or> v = 127 then Some (-1, decoded)
             else
               do {
                 decoded' \<leftarrow> fill decoded_size (decoded @ [char_of (unat v)]);
                 http_decode_loop encoded decoded_size (src + 1) decoded'
               })
     }"
  by pat_completeness auto
termination
  by (relation "measure (\<lambda>(encoded, decoded_size, src, decoded). length encoded - src)")
    (auto simp: rd_def split: if_splits)

declare http_decode_loop.simps [simp del]

definition http_decode_path :: "bytes \<Rightarrow> nat \<Rightarrow> (int \<times> bytes) option" where
  "http_decode_path encoded decoded_size =
     (if decoded_size = 0 then Some (-1, []) else http_decode_loop encoded decoded_size 0 [])"

section \<open>The request target\<close>

text \<open>The end of \<open>http_parse_target\<close>: the leading slash and the decoded path.\<close>

definition http_target_path :: "bytes \<Rightarrow> http_request_t \<Rightarrow> (int \<times> http_request_t) option" where
  "http_target_path path request =
     do {
       c \<leftarrow> rd path 0;
       if c \<noteq> CHR ''/'' then Some (-1, request)
       else
         do {
           (r, p) \<leftarrow> http_decode_path path 4096;
           Some (r, request\<lparr>rq_path := p\<rparr>)
         }
     }"

definition http_parse_target :: "bytes \<Rightarrow> http_request_t \<Rightarrow> (int \<times> http_request_t) option" where
  "http_parse_target target request =
     do {
       q \<leftarrow> strchr target 0 CHR ''?'';
       (case q of
          Some query_start \<Rightarrow>
            if query_start = 0 \<or> query_start \<ge> 4096 then Some (-1, request)
            else
              do {
                bs \<leftarrow> rd_bytes target 0 query_start;
                path \<leftarrow> fill 4096 (bs @ [NUL]);
                query_length \<leftarrow> strlen target (query_start + 1);
                if query_length \<ge> HTTP_QUERY_MAX then Some (-1, request)
                else
                  do {
                    qs \<leftarrow> rd_bytes target (query_start + 1) (query_length + 1);
                    query \<leftarrow> fill HTTP_QUERY_MAX qs;
                    http_target_path path (request\<lparr>rq_query := cstr query\<rparr>)
                  }
              }
        | None \<Rightarrow>
            do {
              path_length \<leftarrow> strlen target 0;
              if path_length = 0 \<or> path_length \<ge> 4096 then Some (-1, request)
              else
                do {
                  bs \<leftarrow> rd_bytes target 0 (path_length + 1);
                  path \<leftarrow> fill 4096 bs;
                  http_target_path path (request\<lparr>rq_query := []\<rparr>)
                }
            })
     }"

section \<open>The end of the header block\<close>

text \<open>The four comparisons of the loop of \<open>http_find_header_end\<close>, with their short circuits.\<close>

definition http_crlf_crlf_at :: "bytes \<Rightarrow> nat \<Rightarrow> bool option" where
  "http_crlf_crlf_at buffer i =
     do {
       c0 \<leftarrow> rd buffer i;
       if c0 \<noteq> CR then Some False
       else do {
         c1 \<leftarrow> rd buffer (i + 1);
         if c1 \<noteq> LF then Some False
         else do {
           c2 \<leftarrow> rd buffer (i + 2);
           if c2 \<noteq> CR then Some False
           else do {
             c3 \<leftarrow> rd buffer (i + 3);
             Some (c3 = LF)
           }
         }
       }
     }"

function http_find_header_end_loop :: "bytes \<Rightarrow> nat \<Rightarrow> nat \<Rightarrow> nat option option" where
  "http_find_header_end_loop buffer len i =
     (if i \<le> size_sub len 4 then
        do {
          found \<leftarrow> http_crlf_crlf_at buffer i;
          if found then Some (Some (i + 4)) else http_find_header_end_loop buffer len (i + 1)
        }
      else Some None)"
  by pat_completeness auto
termination
  by (relation "measure (\<lambda>(buffer, len, i). Suc (size_sub len 4) - i)") auto

declare http_find_header_end_loop.simps [simp del]

definition http_find_header_end :: "bytes \<Rightarrow> nat \<Rightarrow> nat option option" where
  "http_find_header_end buffer len =
     (if len < 4 then Some None else http_find_header_end_loop buffer len 0)"

definition http_request_complete :: "bytes \<Rightarrow> nat \<Rightarrow> bool option" where
  "http_request_complete buffer len =
     map_option (\<lambda>p. p \<noteq> None) (http_find_header_end buffer len)"

section \<open>Looking headers up\<close>

function http_get_header_loop :: "http_request_t \<Rightarrow> bytes \<Rightarrow> nat \<Rightarrow> bytes option option" where
  "http_get_header_loop request nm i =
     (if i < rq_header_count request then
        (if i < length (rq_headers request) then
           (if strcasecmp (hdr_name (rq_headers request ! i)) nm = 0
            then Some (Some (hdr_value (rq_headers request ! i)))
            else http_get_header_loop request nm (i + 1))
         else None)
      else Some None)"
  by pat_completeness auto
termination
  by (relation "measure (\<lambda>(request, nm, i). rq_header_count request - i)") auto

declare http_get_header_loop.simps [simp del]

definition http_get_header :: "http_request_t \<Rightarrow> bytes \<Rightarrow> bytes option option" where
  "http_get_header request nm = http_get_header_loop request nm 0"

section \<open>Header syntax\<close>

definition http_is_tchar :: "char \<Rightarrow> bool" where
  "http_is_tchar c \<longleftrightarrow>
     (uchar c \<ge> uchar CHR ''0'' \<and> uchar c \<le> uchar CHR ''9'') \<or>
     (uchar c \<ge> uchar CHR ''A'' \<and> uchar c \<le> uchar CHR ''Z'') \<or>
     (uchar c \<ge> uchar CHR ''a'' \<and> uchar c \<le> uchar CHR ''z'') \<or>
     c \<in> set [CHR ''!'', CHR ''#'', CHR ''$'', CHR ''%'', CHR ''&'', CHR 0x27, CHR ''*'', CHR ''+'',
              CHR ''-'', CHR ''.'', CHR ''^'', CHR ''_'', CHR 0x60, CHR ''|'', CHR ''~'']"

function http_valid_name_loop :: "bytes \<Rightarrow> nat \<Rightarrow> nat \<Rightarrow> nat \<Rightarrow> bool option" where
  "http_valid_name_loop m nm len i =
     (if i < len then
        do {
          c \<leftarrow> rd m (nm + i);
          if \<not> http_is_tchar c then Some False else http_valid_name_loop m nm len (i + 1)
        }
      else Some True)"
  by pat_completeness auto
termination
  by (relation "measure (\<lambda>(m, nm, len, i). len - i)") auto

declare http_valid_name_loop.simps [simp del]

definition http_valid_header_name :: "bytes \<Rightarrow> nat \<Rightarrow> nat \<Rightarrow> bool option" where
  "http_valid_header_name m nm len =
     (if len = 0 then Some False else http_valid_name_loop m nm len 0)"

text \<open>The two tests the loop of \<open>http_valid_header_value\<close> applies to each byte.\<close>

definition http_value_byte_ok :: "char \<Rightarrow> bool" where
  "http_value_byte_ok c \<longleftrightarrow> \<not> (uchar c < 32 \<and> c \<noteq> HTAB) \<and> uchar c \<noteq> 127"

function http_valid_value_loop :: "bytes \<Rightarrow> nat \<Rightarrow> nat \<Rightarrow> nat \<Rightarrow> bool option" where
  "http_valid_value_loop m vl len i =
     (if i < len then
        do {
          c \<leftarrow> rd m (vl + i);
          if \<not> http_value_byte_ok c then Some False else http_valid_value_loop m vl len (i + 1)
        }
      else Some True)"
  by pat_completeness auto
termination
  by (relation "measure (\<lambda>(m, vl, len, i). len - i)") auto

declare http_valid_value_loop.simps [simp del]

definition http_valid_header_value :: "bytes \<Rightarrow> nat \<Rightarrow> nat \<Rightarrow> bool option" where
  "http_valid_header_value m vl len = http_valid_value_loop m vl len 0"

section \<open>The header block\<close>

text \<open>The loop that skips blanks behind the colon, and the one that drops them at the end.\<close>

definition is_ows :: "char \<Rightarrow> bool" where
  "is_ows c \<longleftrightarrow> c = SP \<or> c = HTAB"

function http_skip_ows :: "bytes \<Rightarrow> nat \<Rightarrow> nat \<Rightarrow> nat option" where
  "http_skip_ows m value_start line_end =
     (if value_start < line_end then
        do {
          c \<leftarrow> rd m value_start;
          if is_ows c then http_skip_ows m (value_start + 1) line_end else Some value_start
        }
      else Some value_start)"
  by pat_completeness auto
termination
  by (relation "measure (\<lambda>(m, value_start, line_end). line_end - value_start)") auto

fun http_trim_ows :: "bytes \<Rightarrow> nat \<Rightarrow> nat \<Rightarrow> nat option" where
  "http_trim_ows m value_start 0 = Some 0"
| "http_trim_ows m value_start (Suc n) =
     do {
       c \<leftarrow> rd m (value_start + n);
       if is_ows c then http_trim_ows m value_start n else Some (Suc n)
     }"

declare http_skip_ows.simps [simp del]

text \<open>
  One pass of the loop of \<open>http_parse_headers\<close> over the line between \<open>line\<close> and \<open>line_end\<close>:
  \<open>HTTP_PARSE_OK\<close> means that the loop goes on with the next line.
\<close>

definition http_store_value ::
    "bytes \<Rightarrow> nat \<Rightarrow> nat \<Rightarrow> http_request_t \<Rightarrow> server_config_t \<Rightarrow>
     (http_parse_result_t \<times> http_request_t) option" where
  "http_store_value buffer colon line_end request config =
     do {
       value_start \<leftarrow> http_skip_ows buffer (colon + 1) line_end;
       value_length \<leftarrow> http_trim_ows buffer value_start (line_end - value_start);
       ok \<leftarrow> http_valid_header_value buffer value_start value_length;
       if \<not> ok then Some (HTTP_PARSE_BAD_REQUEST, request)
       else if value_length \<ge> http_header_value_max config
       then Some (HTTP_PARSE_HEADERS_TOO_LARGE, request)
       else
         do {
           bs \<leftarrow> rd_bytes buffer value_start value_length;
           stored \<leftarrow> fill HTTP_HEADER_VALUE_MAX (bs @ [NUL]);
           (let i = rq_header_count request;
                h = rq_headers request ! i
            in Some (HTTP_PARSE_OK,
                 request\<lparr>rq_headers := (rq_headers request)[i := h\<lparr>hdr_value := cstr stored\<rparr>],
                         rq_header_count := i + 1\<rparr>))
         }
     }"

definition http_parse_header_line ::
    "bytes \<Rightarrow> nat \<Rightarrow> nat \<Rightarrow> http_request_t \<Rightarrow> server_config_t \<Rightarrow>
     (http_parse_result_t \<times> http_request_t) option" where
  "http_parse_header_line buffer line line_end request config =
     do {
       cl \<leftarrow> memchr buffer line CHR '':'' (line_end - line);
       (case cl of
          None \<Rightarrow> Some (HTTP_PARSE_BAD_REQUEST, request)
        | Some colon \<Rightarrow>
            (let name_length = colon - line
             in if name_length = 0 then Some (HTTP_PARSE_BAD_REQUEST, request)
                else
                  do {
                    c \<leftarrow> rd buffer (line + (name_length - 1));
                    if is_ows c then Some (HTTP_PARSE_BAD_REQUEST, request)
                    else
                      do {
                        ok \<leftarrow> http_valid_header_name buffer line name_length;
                        if \<not> ok then Some (HTTP_PARSE_BAD_REQUEST, request)
                        else if name_length \<ge> http_header_name_max config
                        then Some (HTTP_PARSE_HEADERS_TOO_LARGE, request)
                        else
                          do {
                            bs \<leftarrow> rd_bytes buffer line name_length;
                            stored \<leftarrow> fill HTTP_HEADER_NAME_MAX (bs @ [NUL]);
                            (let i = rq_header_count request;
                                 h = rq_headers request ! i
                             in if i < length (rq_headers request) then
                                  http_store_value buffer colon line_end
                                    (request\<lparr>rq_headers :=
                                      (rq_headers request)[i := h\<lparr>hdr_name := cstr stored\<rparr>]\<rparr>)
                                    config
                                else None)
                          }
                      }
                  }))
     }"

text \<open>\<open>line[0] == '\r' && line[1] == '\n'\<close>\<close>

definition http_at_crlf :: "bytes \<Rightarrow> nat \<Rightarrow> bool option" where
  "http_at_crlf buffer line =
     do {
       c0 \<leftarrow> rd buffer line;
       if c0 \<noteq> CR then Some False
       else do {
         c1 \<leftarrow> rd buffer (line + 1);
         Some (c1 = LF)
       }
     }"

function http_headers_loop ::
    "bytes \<Rightarrow> nat \<Rightarrow> http_request_t \<Rightarrow> server_config_t \<Rightarrow>
     (http_parse_result_t \<times> http_request_t) option" where
  "http_headers_loop buffer line request config =
     do {
       at_end \<leftarrow> http_at_crlf buffer line;
       if at_end then Some (HTTP_PARSE_OK, request)
       else if rq_header_count request \<ge> http_max_headers config
       then Some (HTTP_PARSE_HEADERS_TOO_LARGE, request)
       else
         do {
           le \<leftarrow> strstr buffer line CRLF;
           (case le of
              None \<Rightarrow> Some (HTTP_PARSE_BAD_REQUEST, request)
            | Some line_end \<Rightarrow>
                do {
                  (r, request') \<leftarrow> http_parse_header_line buffer line line_end request config;
                  if r = HTTP_PARSE_OK
                  then http_headers_loop buffer (line_end + 2) request' config
                  else Some (r, request')
                })
         }
     }"
  by pat_completeness auto
termination
proof (relation "measure (\<lambda>(buffer, line, request, config). Suc (length buffer) - line)", goal_cases)
  case 1
  show ?case by simp
next
  case (2 buffer line request config at_end le line_end x r request')
  from 2 have "strstr buffer line CRLF = Some (Some line_end)" by simp
  then show ?case using strstr_bound [of buffer line CRLF line_end] by auto
qed

declare http_headers_loop.simps [simp del]

definition http_parse_headers ::
    "bytes \<Rightarrow> http_request_t \<Rightarrow> server_config_t \<Rightarrow>
     (http_parse_result_t \<times> http_request_t) option" where
  "http_parse_headers buffer request config =
     do {
       l \<leftarrow> strstr buffer 0 CRLF;
       (case l of
          None \<Rightarrow> Some (HTTP_PARSE_BAD_REQUEST, request)
        | Some line \<Rightarrow> http_headers_loop buffer (line + 2) request config)
     }"

section \<open>The request line\<close>

text \<open>
  \<open>http_parse_request_line\<close> from the point where the line end and the two spaces are known: the
  length tests and the three copies. The result is the return code, the request and the
  initialised part of the array \<open>target\<close>.
\<close>

definition http_store_request_line ::
    "bytes \<Rightarrow> nat \<Rightarrow> nat \<Rightarrow> nat \<Rightarrow> http_request_t \<Rightarrow> nat \<Rightarrow> (int \<times> http_request_t \<times> bytes) option" where
  "http_store_request_line buffer line_end first_space second_space request target_cap =
     (let method_length = first_space;
          target_length = second_space - first_space - 1;
          version_length = line_end - second_space - 1
      in if method_length = 0 \<or> method_length \<ge> 16 then Some (-1, request, [])
         else
           do {
             ok \<leftarrow> http_valid_header_name buffer 0 method_length;
             if \<not> ok then Some (-1, request, [])
             else
               do {
                 mb \<leftarrow> rd_bytes buffer 0 method_length;
                 meth \<leftarrow> fill 16 (mb @ [NUL]);
                 (let request1 = request\<lparr>rq_method := cstr meth\<rparr>
                  in if target_length = 0 \<or> target_length \<ge> target_cap
                     then Some (-1, request1, [])
                     else
                       do {
                         tb \<leftarrow> rd_bytes buffer (first_space + 1) target_length;
                         target \<leftarrow> fill target_cap (tb @ [NUL]);
                         if version_length = 0 \<or> version_length \<ge> 16
                         then Some (-1, request1, target)
                         else
                           do {
                             vb \<leftarrow> rd_bytes buffer (second_space + 1) version_length;
                             version \<leftarrow> fill 16 (vb @ [NUL]);
                             Some (0, request1\<lparr>rq_version := cstr version\<rparr>, target)
                           }
                       })
               }
           })"

definition http_parse_request_line ::
    "bytes \<Rightarrow> http_request_t \<Rightarrow> nat \<Rightarrow> (int \<times> http_request_t \<times> bytes) option" where
  "http_parse_request_line buffer request target_cap =
     do {
       le \<leftarrow> strstr buffer 0 CRLF;
       (case le of
          None \<Rightarrow> Some (-1, request, [])
        | Some line_end \<Rightarrow>
            do {
              fs \<leftarrow> memchr buffer 0 SP line_end;
              (case fs of
                 None \<Rightarrow> Some (-1, request, [])
               | Some first_space \<Rightarrow>
                   do {
                     ss \<leftarrow> memchr buffer (first_space + 1) SP (line_end - first_space - 1);
                     (case ss of
                        None \<Rightarrow> Some (-1, request, [])
                      | Some second_space \<Rightarrow>
                          do {
                            ts \<leftarrow> memchr buffer (second_space + 1) SP (line_end - second_space - 1);
                            (if ts \<noteq> None then Some (-1, request, [])
                             else http_store_request_line buffer line_end first_space second_space
                                    request target_cap)
                          })
                   })
            })
     }"

section \<open>The parser\<close>

definition http_parse_request ::
    "bytes option \<Rightarrow> http_request_t option \<Rightarrow> server_config_t \<Rightarrow>
     (http_parse_result_t \<times> http_request_t option) option" where
  "http_parse_request buffer request config =
     (case (buffer, request) of
        (Some b, Some rq) \<Rightarrow>
          (let rq0 = rq\<lparr>rq_header_count := 0, rq_query := []\<rparr>
           in do {
                (r, rq1, target) \<leftarrow> http_parse_request_line b rq0 4096;
                if r < 0 then Some (HTTP_PARSE_BAD_REQUEST, Some rq1)
                else if strcmp (rq_version rq1) ''HTTP/1.1'' \<noteq> 0 \<and>
                        strcmp (rq_version rq1) ''HTTP/1.0'' \<noteq> 0
                then Some (HTTP_PARSE_BAD_REQUEST, Some rq1)
                else
                  do {
                    (t, rq2) \<leftarrow> http_parse_target target rq1;
                    if t < 0 then Some (HTTP_PARSE_BAD_REQUEST, Some rq2)
                    else
                      do {
                        (res, rq3) \<leftarrow> http_parse_headers b rq2 config;
                        Some (res, Some rq3)
                      }
                  }
              })
      | _ \<Rightarrow> Some (HTTP_PARSE_BAD_REQUEST, request))"

end
