(* ===== verification/Http_Grammar.thy ===== *)
theory Http_Grammar
  imports Http_Parse
begin

text \<open>
  The language the request parser accepts, as functions on byte strings that know nothing of
  buffers and offsets, and the refinement of each parsing function of \<open>http_parse.c\<close> to its
  counterpart here. The refinement lemmas have the form \<open>f (\<dots> @ s @ NUL # j) \<dots> = Some \<dots>\<close>:
  the C function stays inside its objects, ends, and computes what the specification says.
\<close>

section \<open>Percent decoding\<close>

definition hex_digit :: "char \<Rightarrow> nat option" where
  "hex_digit c =
     (if isdigit c then Some (digit_val c)
      else if 97 \<le> uchar c \<and> uchar c \<le> 102 then Some (nat (uchar c - 87))
      else if 65 \<le> uchar c \<and> uchar c \<le> 70 then Some (nat (uchar c - 55))
      else None)"

definition path_byte_ok :: "char \<Rightarrow> bool" where
  "path_byte_ok c \<longleftrightarrow> 32 \<le> uchar c \<and> uchar c \<noteq> 127"

fun url_decode :: "bytes \<Rightarrow> bytes option" where
  "url_decode [] = Some []"
| "url_decode (c # s) =
     (if c = CHR ''%'' then
        (case s of
           h # l # r \<Rightarrow>
             (case (hex_digit h, hex_digit l) of
                (Some a, Some b) \<Rightarrow>
                  if path_byte_ok (char_of (16 * a + b))
                  then map_option (Cons (char_of (16 * a + b))) (url_decode r)
                  else None
              | _ \<Rightarrow> None)
         | _ \<Rightarrow> None)
      else if path_byte_ok c then map_option (Cons c) (url_decode s)
      else None)"

lemma hex_digit_bound: "hex_digit c = Some a \<Longrightarrow> a < 16"
  by (auto simp: hex_digit_def isdigit_def digit_val_def split: if_splits)

lemma http_hex_value_eq:
  "http_hex_value c = (case hex_digit c of Some a \<Rightarrow> int a | None \<Rightarrow> -1)"
  using uchar_bounds [of c]
  by (auto simp: http_hex_value_def hex_digit_def isdigit_def digit_val_def schar_def
      uchar_def [of "CHR ''0''"] uchar_def [of "CHR ''9''"] uchar_def [of "CHR ''a''"]
      uchar_def [of "CHR ''f''"] uchar_def [of "CHR ''A''"] uchar_def [of "CHR ''F''"])

lemma http_hex_byte_eq:
  assumes "a < 16" "b < 16"
  shows "http_hex_byte (int a) (int b) = word_of_nat (16 * a + b)"
proof -
  have "take_bit 4 (int b) = int b" using assms(2) by (simp add: take_bit_eq_mod)
  then have "push_bit 4 (int a) OR int b = concat_bit 4 (int b) (int a)"
    by (simp add: concat_bit_def or.commute)
  also have "\<dots> = int (16 * a + b)"
    using \<open>take_bit 4 (int b) = int b\<close> by (simp add: concat_bit_eq push_bit_eq_mult)
  finally show ?thesis by (simp only: http_hex_byte_def of_int_of_nat_eq)
qed

lemma byte_word:
  assumes "n < 256"
  defines "v \<equiv> (word_of_nat n :: 8 word)"
  shows "char_of (unat v) = (char_of n :: char)"
    and "(v = 0 \<or> v < 32 \<or> v = 127) \<longleftrightarrow> \<not> path_byte_ok (char_of n)"
proof -
  have u: "unat v = n" using assms by (simp add: unat_of_nat)
  then show "char_of (unat v) = (char_of n :: char)" by simp
  have "uchar (char_of n) = int n" using assms by (simp add: uchar_def)
  with u show "(v = 0 \<or> v < 32 \<or> v = 127) \<longleftrightarrow> \<not> path_byte_ok (char_of n)"
    by (auto simp: path_byte_ok_def word_less_nat_alt word_unat_eq_iff)
qed

lemma plain_byte_word:
  fixes c :: char
  defines "v \<equiv> (word_of_int (uchar c) :: 8 word)"
  shows "char_of (unat v) = c" and "(v = 0 \<or> v < 32 \<or> v = 127) \<longleftrightarrow> \<not> path_byte_ok c"
proof -
  have v: "v = word_of_nat (of_char c)" by (simp add: v_def uchar_def)
  show "char_of (unat v) = c" using byte_word(1) [of "of_char c"] by (simp add: v)
  show "(v = 0 \<or> v < 32 \<or> v = 127) \<longleftrightarrow> \<not> path_byte_ok c"
    using byte_word(2) [of "of_char c"] by (simp add: v)
qed

lemma hex_digit_NUL [simp]: "hex_digit NUL = None"
  by (simp add: hex_digit_def isdigit_def uchar_def)

text \<open>One round of the loop on an unescaped byte and on an escape sequence.\<close>

lemma decode_loop_end:
  "length dec < cap \<Longrightarrow> http_decode_loop (pre @ NUL # j) cap (length pre) dec = Some (0, dec)"
  by (simp add: http_decode_loop.simps mem_simps)

lemma decode_loop_plain:
  assumes "c \<noteq> NUL" "c \<noteq> CHR ''%''" "length dec + 1 < cap"
  shows "http_decode_loop (pre @ c # s) cap (length pre) dec =
    (if path_byte_ok c then http_decode_loop ((pre @ [c]) @ s) cap (length (pre @ [c])) (dec @ [c])
     else Some (-1, dec))"
  using assms
  by (subst http_decode_loop.simps)
    (simp add: mem_simps Let_def plain_byte_word)

lemma decode_loop_escape:
  assumes "h \<noteq> NUL" "l \<noteq> NUL" "length dec + 1 < cap"
  shows "http_decode_loop (pre @ CHR ''%'' # h # l # s) cap (length pre) dec =
    (case (hex_digit h, hex_digit l) of
       (Some a, Some b) \<Rightarrow>
         if path_byte_ok (char_of (16 * a + b))
         then http_decode_loop ((pre @ [CHR ''%'', h, l]) @ s) cap (length (pre @ [CHR ''%'', h, l]))
                (dec @ [char_of (16 * a + b)])
         else Some (-1, dec)
     | _ \<Rightarrow> Some (-1, dec))"
proof -
  have reads: "rd (pre @ CHR ''%'' # h # l # s) (length pre) = Some CHR ''%''"
    "rd (pre @ CHR ''%'' # h # l # s) (Suc (length pre)) = Some h"
    "rd (pre @ CHR ''%'' # h # l # s) (Suc (Suc (length pre))) = Some l"
    by (simp_all add: rd_def nth_append)
  show ?thesis
  proof (cases "hex_digit h = None \<or> hex_digit l = None")
    case True
    then show ?thesis using assms
      by (subst http_decode_loop.simps)
        (auto simp: reads http_hex_value_eq split: option.splits)
  next
    case False
    then obtain a b where ab: "hex_digit h = Some a" "hex_digit l = Some b" by auto
    then have less: "a < 16" "b < 16" by (auto dest: hex_digit_bound)
    then have n: "16 * a + b < 256" by simp
    show ?thesis using assms ab
      by (subst http_decode_loop.simps)
        (simp add: reads http_hex_value_eq http_hex_byte_eq [OF less] Let_def byte_word [OF n]
          fill_def numeral_3_eq_3 del: of_nat_add of_nat_mult)
  qed
qed

lemma http_decode_loop_refines:
  assumes "NUL \<notin> set s" "length dec + length s < cap"
  shows "case url_decode s of
      Some d \<Rightarrow> http_decode_loop (pre @ s @ NUL # j) cap (length pre) dec = Some (0, dec @ d)
    | None \<Rightarrow> \<exists>d. http_decode_loop (pre @ s @ NUL # j) cap (length pre) dec = Some (-1, d)"
  using assms
proof (induction s arbitrary: pre dec rule: measure_induct_rule [of length])
  case (less s)
  consider (empty) "s = []" | (plain) c t where "s = c # t" "c \<noteq> CHR ''%''"
    | (short) t where "s = CHR ''%'' # t" "length t < 2"
    | (escape) h l r where "s = CHR ''%'' # h # l # r"
    by (cases s; cases "tl s"; cases "tl (tl s)") auto
  then show ?case
  proof cases
    case empty
    with less.prems show ?thesis by (simp add: decode_loop_end)
  next
    case (plain c t)
    with less.prems less.IH [of t "dec @ [c]" "pre @ [c]"] show ?thesis
      by (auto simp: decode_loop_plain split: option.splits)
  next
    case (short t)
    with less.prems show ?thesis
      by (cases t) (subst http_decode_loop.simps, auto simp: rd_def nth_append)+
  next
    case (escape h l r)
    with less.prems have "h \<noteq> NUL" "l \<noteq> NUL" "length dec + 1 < cap" by auto
    note esc = decode_loop_escape [OF this, of pre "r @ NUL # j"]
    have "NUL \<notin> set r" "length (dec @ [x]) + length r < cap" for x
      using escape less.prems by auto
    with less.IH [of r "dec @ [x]" "pre @ [CHR ''%'', h, l]" for x] escape esc
    show ?thesis by (auto split: option.splits)
  qed
qed

lemma http_decode_path_refines:
  assumes "NUL \<notin> set s" "length s < cap"
  shows "case url_decode s of
      Some d \<Rightarrow> http_decode_path (s @ NUL # j) cap = Some (0, d)
    | None \<Rightarrow> \<exists>d. http_decode_path (s @ NUL # j) cap = Some (-1, d)"
  using http_decode_loop_refines [of s "[]" cap "[]" j] assms
  by (auto simp: http_decode_path_def split: option.splits)

section \<open>The request target\<close>

text \<open>Path and query of a request target; the path is decoded, the query is kept as it is.\<close>

definition target_spec :: "bytes \<Rightarrow> (bytes \<times> bytes) option" where
  "target_spec t =
     (let (p, q) = (case split_on CHR ''?'' t of Some pq \<Rightarrow> pq | None \<Rightarrow> (t, []))
      in if p = [] \<or> hd p \<noteq> CHR ''/'' then None
         else map_option (\<lambda>d. (d, q)) (url_decode p))"

lemma http_target_path_refines:
  assumes "NUL \<notin> set p" "p \<noteq> []" "length p < 4096"
  shows "case (if hd p = CHR ''/'' then url_decode p else None) of
      Some d \<Rightarrow> http_target_path (p @ NUL # j) rq = Some (0, rq\<lparr>rq_path := d\<rparr>)
    | None \<Rightarrow> \<exists>rq'. http_target_path (p @ NUL # j) rq = Some (-1, rq')"
proof -
  from assms(2) have "rd (p @ NUL # j) 0 = Some (hd p)"
    by (simp add: rd_def nth_append hd_conv_nth)
  with http_decode_path_refines [OF assms(1,3), of j] show ?thesis
    by (auto simp: http_target_path_def split: option.splits)
qed

lemma http_parse_target_refines:
  assumes "NUL \<notin> set t" "t \<noteq> []" "length t < 4096"
  shows "case target_spec t of
      Some (d, q) \<Rightarrow> http_parse_target (t @ [NUL]) rq = Some (0, rq\<lparr>rq_query := q, rq_path := d\<rparr>)
    | None \<Rightarrow> \<exists>rq'. http_parse_target (t @ [NUL]) rq = Some (-1, rq')"
proof (cases "split_on CHR ''?'' t")
  case None
  then show ?thesis
    using assms http_target_path_refines [OF assms, of "[]" "rq\<lparr>rq_query := []\<rparr>"]
    by (auto simp: http_parse_target_def target_spec_def strchr_def strlen_def clib_simps
        rd_bytes_def fill_def split: option.splits if_splits)
next
  case (Some pq)
  then obtain p q where pq: "split_on CHR ''?'' t = Some (p, q)" by (cases pq) auto
  then have t: "t = p @ CHR ''?'' # q" by (simp add: split_on_Some)
  have q: "strlen (t @ [NUL]) (Suc (length p)) = Some (length q)"
    "rd_bytes (t @ [NUL]) (Suc (length p)) (Suc (length q)) = Some (q @ [NUL])"
    using assms(1) by (simp_all add: strlen_def t clib_simps rd_bytes_def)
  have p: "rd_bytes (t @ [NUL]) 0 (length p) = Some p" by (simp add: t rd_bytes_def)
  have l: "strchr (t @ [NUL]) 0 CHR ''?'' = Some (Some (length p))"
    using assms(1) pq by (simp add: strchr_def clib_simps)
  show ?thesis
  proof (cases "p = []")
    case True
    then show ?thesis by (simp add: http_parse_target_def target_spec_def l pq)
  next
    case False
    have "length p < 4096" "length q < 4096" "NUL \<notin> set p" "NUL \<notin> set q"
      using assms by (auto simp: t)
    with False http_target_path_refines [of p "[]" "rq\<lparr>rq_query := q\<rparr>"] show ?thesis
      by (auto simp: http_parse_target_def target_spec_def l pq q p HTTP_QUERY_MAX_def fill_def
          split: option.splits if_splits)
  qed
qed

section \<open>Header lines\<close>

text \<open>
  The characters of tokens and of field values, and blanks. The predicates of the parser are
  replaced by these wherever they occur.
\<close>

definition token_char :: "char \<Rightarrow> bool" where
  "token_char c \<longleftrightarrow>
     isdigit c \<or> 65 \<le> uchar c \<and> uchar c \<le> 90 \<or> 97 \<le> uchar c \<and> uchar c \<le> 122 \<or>
     c \<in> set ''!#$%&*+-.^_|~'' \<or> uchar c = 39 \<or> uchar c = 96"

definition field_byte :: "char \<Rightarrow> bool" where
  "field_byte c \<longleftrightarrow> 32 \<le> uchar c \<and> uchar c \<noteq> 127 \<or> uchar c = 9"

definition blank :: "char \<Rightarrow> bool" where
  "blank c \<longleftrightarrow> uchar c = 32 \<or> uchar c = 9"

lemma http_is_tchar_eq [simp]: "http_is_tchar = token_char"
proof
  fix c
  have "c = CHR 0x27 \<longleftrightarrow> uchar c = uchar CHR 0x27" "c = CHR 0x60 \<longleftrightarrow> uchar c = uchar CHR 0x60" by simp_all
  moreover have "uchar CHR 0x27 = 39" "uchar CHR 0x60 = 96" "uchar CHR ''0'' = 48" "uchar CHR ''9'' = 57"
    "uchar CHR ''A'' = 65" "uchar CHR ''Z'' = 90" "uchar CHR ''a'' = 97" "uchar CHR ''z'' = 122"
    by (simp_all add: uchar_def)
  ultimately show "http_is_tchar c = token_char c"
    unfolding http_is_tchar_def token_char_def isdigit_def by auto
qed

lemma http_value_byte_ok_eq [simp]: "http_value_byte_ok = field_byte"
proof
  fix c
  have "c = HTAB \<longleftrightarrow> uchar c = uchar HTAB" by simp
  then show "http_value_byte_ok c = field_byte c"
    unfolding http_value_byte_ok_def field_byte_def by (auto simp: uchar_def [of HTAB])
qed

lemma is_ows_eq [simp]: "is_ows = blank"
proof
  fix c
  have "c = HTAB \<longleftrightarrow> uchar c = uchar HTAB" "c = SP \<longleftrightarrow> uchar c = uchar SP" by simp_all
  then show "is_ows c = blank c"
    unfolding is_ows_def blank_def by (auto simp: uchar_def [of HTAB] uchar_def [of SP])
qed

definition trim :: "bytes \<Rightarrow> bytes" where
  "trim v = rev (dropWhile blank (rev (dropWhile blank v)))"

text \<open>A header line: the error, or the name and the trimmed value.\<close>

definition header_line_spec ::
    "server_config_t \<Rightarrow> bytes \<Rightarrow> http_parse_result_t + http_header_t" where
  "header_line_spec config line =
     (case split_on CHR '':'' line of
        None \<Rightarrow> Inl HTTP_PARSE_BAD_REQUEST
      | Some (nm, v) \<Rightarrow>
          if nm = [] \<or> \<not> list_all token_char nm then Inl HTTP_PARSE_BAD_REQUEST
          else if length nm \<ge> http_header_name_max config then Inl HTTP_PARSE_HEADERS_TOO_LARGE
          else if \<not> list_all field_byte (trim v) then Inl HTTP_PARSE_BAD_REQUEST
          else if length (trim v) \<ge> http_header_value_max config
          then Inl HTTP_PARSE_HEADERS_TOO_LARGE
          else Inr \<lparr>hdr_name = nm, hdr_value = trim v\<rparr>)"

lemma valid_name_loop_eq:
  "i \<le> length nm \<Longrightarrow>
   http_valid_name_loop (pre @ nm @ post) (length pre) (length nm) i =
     Some (list_all token_char (drop i nm))"
proof (induction "length nm - i" arbitrary: i)
  case 0
  then show ?case by (simp add: http_valid_name_loop.simps)
next
  case (Suc n)
  then have i: "i < length nm" by simp
  then have "rd (pre @ nm @ post) (length pre + i) = Some (nm ! i)" by (simp add: mem_simps)
  moreover have "drop i nm = nm ! i # drop (Suc i) nm" using i by (simp add: Cons_nth_drop_Suc)
  ultimately show ?case using Suc i by (subst http_valid_name_loop.simps) auto
qed

lemma http_valid_header_name_eq:
  "http_valid_header_name (pre @ nm @ post) (length pre) (length nm) =
     Some (nm \<noteq> [] \<and> list_all token_char nm)"
  using valid_name_loop_eq [of 0 nm pre post] by (auto simp: http_valid_header_name_def)

lemma valid_value_loop_eq:
  "i \<le> length v \<Longrightarrow>
   http_valid_value_loop (pre @ v @ post) (length pre) (length v) i =
     Some (list_all field_byte (drop i v))"
proof (induction "length v - i" arbitrary: i)
  case 0
  then show ?case by (simp add: http_valid_value_loop.simps)
next
  case (Suc n)
  then have i: "i < length v" by simp
  then have "rd (pre @ v @ post) (length pre + i) = Some (v ! i)" by (simp add: mem_simps)
  moreover have "drop i v = v ! i # drop (Suc i) v" using i by (simp add: Cons_nth_drop_Suc)
  ultimately show ?case using Suc i by (subst http_valid_value_loop.simps) auto
qed

lemma http_valid_header_value_eq:
  "http_valid_header_value (pre @ v @ post) (length pre) (length v) =
     Some (list_all field_byte v)"
  using valid_value_loop_eq [of 0 v pre post] by (simp add: http_valid_header_value_def)

lemma http_skip_ows_eq:
  "http_skip_ows (pre @ v @ post) (length pre) (length pre + length v) =
     Some (length pre + length (takeWhile blank v))"
proof (induction v arbitrary: pre)
  case Nil
  show ?case by (simp add: http_skip_ows.simps)
next
  case (Cons c v)
  from Cons.IH [of "pre @ [c]"] show ?case
    by (subst http_skip_ows.simps) (simp add: mem_simps)
qed

lemma http_trim_ows_eq:
  "http_trim_ows (pre @ v @ post) (length pre) (length v) =
     Some (length (dropWhile blank (rev v)))"
proof (induction v arbitrary: post rule: rev_induct)
  case Nil
  show ?case by simp
next
  case (snoc c v)
  have "rd (pre @ (v @ [c]) @ post) (length pre + length v) = Some c"
    by (simp add: rd_def nth_append)
  with snoc.IH [of "c # post"] show ?case by simp
qed

lemma trim_split:
  obtains a b where "v = a @ trim v @ b" and "length a = length (takeWhile blank v)"
    and "length (trim v) = length (dropWhile blank (rev (dropWhile blank v)))"
proof -
  let ?w = "dropWhile blank v"
  have "?w = rev (dropWhile blank (rev ?w)) @ rev (takeWhile blank (rev ?w))"
    by (metis rev_append rev_rev_ident takeWhile_dropWhile_id)
  then have "v = takeWhile blank v @ trim v @ rev (takeWhile blank (rev ?w))"
    by (metis takeWhile_dropWhile_id trim_def)
  then show thesis using that by (simp add: trim_def)
qed

text \<open>
  The limits that keep the copies of the parser inside the request struct; \<open>http_config_valid\<close>
  of \<open>http.c\<close> establishes them.
\<close>

definition limits_ok :: "server_config_t \<Rightarrow> bool" where
  "limits_ok config \<longleftrightarrow>
     http_max_headers config \<le> HTTP_MAX_HEADERS \<and>
     http_header_name_max config \<le> HTTP_HEADER_NAME_MAX \<and>
     http_header_value_max config \<le> HTTP_HEADER_VALUE_MAX"

lemma http_store_value_eq:
  fixes pre v post config
  defines "m \<equiv> pre @ v @ post"
  assumes "NUL \<notin> set v" "limits_ok config" "pre \<noteq> []"
  shows "http_store_value m (length pre - 1) (length pre + length v) rq config =
    (if \<not> list_all field_byte (trim v) then Some (HTTP_PARSE_BAD_REQUEST, rq)
     else if length (trim v) \<ge> http_header_value_max config
     then Some (HTTP_PARSE_HEADERS_TOO_LARGE, rq)
     else Some (HTTP_PARSE_OK, rq\<lparr>
       rq_headers := (rq_headers rq)[rq_header_count rq :=
         (rq_headers rq ! rq_header_count rq)\<lparr>hdr_value := trim v\<rparr>],
       rq_header_count := rq_header_count rq + 1\<rparr>))"
proof -
  obtain a b where v: "v = a @ trim v @ b" and a: "length a = length (takeWhile blank v)"
    and t: "length (trim v) = length (dropWhile blank (rev (dropWhile blank v)))"
    by (rule trim_split)
  have dw: "dropWhile blank v = trim v @ b"
    by (metis a append_eq_conv_conj dropWhile_eq_drop v)
  have m: "m = (pre @ a) @ (trim v @ b) @ post" using v by (simp add: m_def)
  have skip: "http_skip_ows m (length pre) (length pre + length v) = Some (length (pre @ a))"
    by (simp add: m_def http_skip_ows_eq a)
  have rest: "length pre + length v - length (pre @ a) = length (trim v @ b)"
    using arg_cong [OF v, of length] by simp
  have trim_eq: "http_trim_ows m (length (pre @ a)) (length (trim v @ b)) = Some (length (trim v))"
    unfolding m by (subst http_trim_ows_eq) (simp add: t flip: dw)
  have valid: "http_valid_header_value m (length (pre @ a)) (length (trim v)) =
      Some (list_all field_byte (trim v))"
    unfolding m using http_valid_header_value_eq [of "pre @ a" "trim v" "b @ post"] by simp
  have copy: "rd_bytes m (length (pre @ a)) (length (trim v)) = Some (trim v)"
    by (simp add: m rd_bytes_def)
  have "NUL \<notin> set (trim v)" using assms(2) by (subst (asm) v) simp
  moreover have "fill HTTP_HEADER_VALUE_MAX (trim v @ [NUL]) = Some (trim v @ [NUL])"
    if "length (trim v) < http_header_value_max config"
    using that assms(3) by (simp add: fill_def limits_ok_def)
  ultimately show ?thesis using \<open>pre \<noteq> []\<close>
    by (simp add: http_store_value_def skip rest trim_eq valid copy Let_def del: length_append)
qed

lemma header_update [simp]:
  "(h :: http_header_t)\<lparr>hdr_name := n, hdr_value := v\<rparr> = \<lparr>hdr_name = n, hdr_value = v\<rparr>"
  by (cases h) simp

lemma ows_not_tchar: "blank c \<Longrightarrow> \<not> token_char c"
  by (auto simp: blank_def token_char_def isdigit_def uchar_def)

text \<open>A header line is parsed as specified, and an accepted header goes into the next slot.\<close>

lemma http_parse_header_line_refines:
  assumes "NUL \<notin> set l" "limits_ok config" "request_wf rq"
    and "rq_header_count rq < HTTP_MAX_HEADERS"
  shows "case header_line_spec config l of
      Inl e \<Rightarrow> e \<noteq> HTTP_PARSE_OK \<and> (\<exists>rq'.
        http_parse_header_line (pre @ l @ post) (length pre) (length pre + length l) rq config =
          Some (e, rq'))
    | Inr h \<Rightarrow>
        http_parse_header_line (pre @ l @ post) (length pre) (length pre + length l) rq config =
          Some (HTTP_PARSE_OK, rq\<lparr>rq_headers := (rq_headers rq)[rq_header_count rq := h],
                                  rq_header_count := rq_header_count rq + 1\<rparr>)"
proof (cases "split_on CHR '':'' l")
  case None
  then show ?thesis
    by (simp add: http_parse_header_line_def header_line_spec_def memchr_def clib_simps)
next
  case (Some nv)
  then obtain nm v where nv: "split_on CHR '':'' l = Some (nm, v)" by (cases nv) auto
  then have l: "l = nm @ CHR '':'' # v" by (simp add: split_on_Some)
  let ?m = "pre @ l @ post" and ?i = "rq_header_count rq"
  have colon: "memchr ?m (length pre) CHR '':'' (length l) = Some (Some (length pre + length nm))"
    by (simp add: memchr_def clib_simps nv)
  have name: "http_valid_header_name ?m (length pre) (length nm) =
      Some (nm \<noteq> [] \<and> list_all token_char nm)"
    using http_valid_header_name_eq [of pre nm "CHR '':'' # v @ post"] by (simp add: l)
  have copy: "rd_bytes ?m (length pre) (length nm) = Some nm"
    by (simp add: l rd_bytes_def)
  have last: "rd ?m (length pre + (length nm - 1)) = Some (last nm)" if "nm \<noteq> []"
    using that by (simp add: l rd_def nth_append last_conv_nth)
  have ows: "\<not> list_all token_char nm" if "nm \<noteq> []" "blank (last nm)"
    using that last_in_set [of nm]
    by (auto simp: list_all_iff dest: ows_not_tchar)
  have "?m = (pre @ nm @ [CHR '':'']) @ v @ post" by (simp add: l)
  with http_store_value_eq [of v config "pre @ nm @ [CHR '':'']" post] assms(1,2)
  have store: "http_store_value ?m (length pre + length nm) (length pre + length l) rq' config =
    (if \<not> list_all field_byte (trim v) then Some (HTTP_PARSE_BAD_REQUEST, rq')
     else if length (trim v) \<ge> http_header_value_max config
     then Some (HTTP_PARSE_HEADERS_TOO_LARGE, rq')
     else Some (HTTP_PARSE_OK, rq'\<lparr>
       rq_headers := (rq_headers rq')[rq_header_count rq' :=
         (rq_headers rq' ! rq_header_count rq')\<lparr>hdr_value := trim v\<rparr>],
       rq_header_count := rq_header_count rq' + 1\<rparr>))" for rq'
    by (simp add: l add.assoc)
  have "NUL \<notin> set nm" using assms(1) by (simp add: l)
  moreover have "?i < length (rq_headers rq)" using assms(3,4) by (simp add: request_wf_def)
  ultimately show ?thesis
    using assms(2) last ows
    by (auto simp: http_parse_header_line_def header_line_spec_def nv colon name copy store
        limits_ok_def fill_def Let_def)
qed

section \<open>The header block\<close>

function headers_spec ::
    "server_config_t \<Rightarrow> bytes \<Rightarrow> nat \<Rightarrow> http_parse_result_t \<times> http_header_t list" where
  "headers_spec config s n =
     (if prefix CRLF s then (HTTP_PARSE_OK, [])
      else if n \<ge> http_max_headers config then (HTTP_PARSE_HEADERS_TOO_LARGE, [])
      else
        (case crlf_split s of
           None \<Rightarrow> (HTTP_PARSE_BAD_REQUEST, [])
         | Some (l, r) \<Rightarrow>
             (case header_line_spec config l of
                Inl e \<Rightarrow> (e, [])
              | Inr h \<Rightarrow> (case headers_spec config r (Suc n) of (res, hs) \<Rightarrow> (res, h # hs)))))"
  by pat_completeness auto
termination
  by (relation "measure (\<lambda>(config, s, n). length s)") (auto dest: crlf_split_length)

declare headers_spec.simps [simp del]

lemma http_at_crlf_eq:
  "NUL \<notin> set s \<Longrightarrow> http_at_crlf (pre @ s @ NUL # j) (length pre) = Some (prefix CRLF s)"
  by (cases s; cases "tl s") (auto simp: http_at_crlf_def rd_def nth_append)

lemma strstr_crlf_eq:
  "NUL \<notin> set s \<Longrightarrow> strstr (pre @ s @ NUL # j) (length pre) CRLF =
     Some (map_option (\<lambda>(l, r). length pre + length l) (crlf_split s))"
  by (cases "crlf_split s") (auto simp: strstr_def clib_simps)

text \<open>The table after the headers \<open>hs\<close> went into the slots behind the used ones.\<close>

definition table_extends :: "http_request_t \<Rightarrow> http_header_t list \<Rightarrow> http_request_t \<Rightarrow> bool" where
  "table_extends rq hs rq' \<longleftrightarrow>
     request_wf rq' \<and> active_headers rq' = active_headers rq @ hs \<and>
     rq' = rq\<lparr>rq_headers := rq_headers rq', rq_header_count := rq_header_count rq'\<rparr>"

lemma table_extends_refl: "request_wf rq \<Longrightarrow> table_extends rq [] rq"
  by (simp add: table_extends_def)

lemma table_extends_step:
  assumes "request_wf rq" "rq_header_count rq < HTTP_MAX_HEADERS"
  shows "table_extends rq [h]
    (rq\<lparr>rq_headers := (rq_headers rq)[rq_header_count rq := h],
        rq_header_count := rq_header_count rq + 1\<rparr>)"
  using assms
  by (auto simp: table_extends_def request_wf_def active_headers_def take_Suc_conv_app_nth)

lemma table_extends_trans:
  "table_extends rq hs rq' \<Longrightarrow> table_extends rq' hs' rq'' \<Longrightarrow> table_extends rq (hs @ hs') rq''"
  by (auto simp: table_extends_def) (metis http_request_t.simps(1-6) http_request_t.surjective
      http_request_t.update_convs(5,6))

lemma http_headers_loop_refines:
  assumes "NUL \<notin> set s" "limits_ok config" "request_wf rq"
  shows "\<exists>rq'. http_headers_loop (pre @ s @ NUL # j) (length pre) rq config =
      Some (fst (headers_spec config s (rq_header_count rq)), rq') \<and>
    (fst (headers_spec config s (rq_header_count rq)) = HTTP_PARSE_OK \<longrightarrow>
      table_extends rq (snd (headers_spec config s (rq_header_count rq))) rq')"
  using assms
proof (induction s arbitrary: pre rq rule: measure_induct_rule [of length])
  case (less s)
  let ?n = "rq_header_count rq" and ?m = "pre @ s @ NUL # j"
  note at_end = http_at_crlf_eq [OF less.prems(1), of pre j]
    and line = strstr_crlf_eq [OF less.prems(1), of pre j]
  show ?case
  proof (cases "prefix CRLF s \<or> ?n \<ge> http_max_headers config \<or> crlf_split s = None")
    case True
    with less.prems at_end line show ?thesis
      by (subst (1 2) headers_spec.simps, subst http_headers_loop.simps)
        (auto simp: table_extends_refl headers_spec.simps)
  next
    case False
    then obtain l r where lr: "crlf_split s = Some (l, r)" by auto
    then have s: "s = l @ CRLF @ r" by (rule crlf_split_SomeD)
    have n: "?n < HTTP_MAX_HEADERS" using False less.prems(2) by (simp add: limits_ok_def)
    have NUL: "NUL \<notin> set l" "NUL \<notin> set r" using less.prems(1) by (auto simp: s)
    note hl = http_parse_header_line_refines [OF NUL(1) less.prems(2,3) n, of pre "CRLF @ r @ NUL # j"]
    show ?thesis
    proof (cases "header_line_spec config l")
      case (Inl e)
      with hl False lr at_end line show ?thesis
        by (subst (1 2) headers_spec.simps, subst http_headers_loop.simps)
          (auto simp: s headers_spec.simps)
    next
      case (Inr h)
      let ?rq1 = "rq\<lparr>rq_headers := (rq_headers rq)[?n := h], rq_header_count := ?n + 1\<rparr>"
      have ext: "table_extends rq [h] ?rq1" using less.prems(3) n by (rule table_extends_step)
      then have "request_wf ?rq1" by (simp add: table_extends_def)
      with less.IH [of r ?rq1 "pre @ l @ CRLF"] NUL(2) less.prems(2) obtain rq' where
        rq': "http_headers_loop ?m (length pre + length l + 2) ?rq1 config =
          Some (fst (headers_spec config r (Suc ?n)), rq')"
        "fst (headers_spec config r (Suc ?n)) = HTTP_PARSE_OK \<longrightarrow>
          table_extends ?rq1 (snd (headers_spec config r (Suc ?n))) rq'"
        by (auto simp: s)
      have spec: "headers_spec config s ?n = (case headers_spec config r (Suc ?n) of
          (res, hs) \<Rightarrow> (res, h # hs))"
        using False lr Inr by (simp add: headers_spec.simps [of config s])
      have "http_headers_loop ?m (length pre) rq config =
          http_headers_loop ?m (length pre + length l + 2) ?rq1 config"
        using hl False lr at_end line Inr
        by (subst http_headers_loop.simps) (auto simp: s)
      with rq' show ?thesis
        using table_extends_trans [OF ext] by (auto simp: spec split: prod.splits)
    qed
  qed
qed

section \<open>The request line\<close>

text \<open>Method, target and version of a request line.\<close>

definition request_line_spec :: "bytes \<Rightarrow> (bytes \<times> bytes \<times> bytes) option" where
  "request_line_spec line =
     (case split_on SP line of
        None \<Rightarrow> None
      | Some (m, r) \<Rightarrow>
          (case split_on SP r of
             None \<Rightarrow> None
           | Some (t, v) \<Rightarrow>
               if SP \<in> set v \<or> m = [] \<or> length m \<ge> 16 \<or> \<not> list_all token_char m \<or>
                  t = [] \<or> length t \<ge> 4096 \<or> v = [] \<or> length v \<ge> 16
               then None else Some (m, t, v)))"

lemma http_store_request_line_eq:
  assumes "NUL \<notin> set (m @ t @ v)"
  shows "case (if m = [] \<or> length m \<ge> 16 \<or> \<not> list_all token_char m \<or> t = [] \<or>
               length t \<ge> 4096 \<or> v = [] \<or> length v \<ge> 16 then None else Some (m, t, v)) of
      None \<Rightarrow> \<exists>rq' tg. http_store_request_line (m @ SP # t @ SP # v @ x)
          (length m + length t + length v + 2) (length m) (length m + length t + 1) rq 4096 =
        Some (-1, rq', tg)
    | Some _ \<Rightarrow> http_store_request_line (m @ SP # t @ SP # v @ x)
          (length m + length t + length v + 2) (length m) (length m + length t + 1) rq 4096 =
        Some (0, rq\<lparr>rq_method := m, rq_version := v\<rparr>, t @ [NUL])"
proof -
  let ?b = "m @ SP # t @ SP # v @ x"
  have name: "http_valid_header_name ?b 0 (length m) = Some (m \<noteq> [] \<and> list_all token_char m)"
    using http_valid_header_name_eq [of "[]" m "SP # t @ SP # v @ x"] by simp
  have copies: "rd_bytes (m @ y) 0 (length m) = Some m"
    "rd_bytes (m @ SP # t @ y) (Suc (length m)) (length t) = Some t"
    "rd_bytes (m @ SP # t @ SP # v @ y) (Suc (Suc (length m + length t))) (length v) = Some v" for y
    by (simp_all add: rd_bytes_def)
  show ?thesis using assms
    by (auto simp: http_store_request_line_def name copies fill_def Let_def)
qed

lemma http_parse_request_line_refines:
  assumes "NUL \<notin> set s"
  shows "case (case crlf_split s of None \<Rightarrow> None | Some (l, r) \<Rightarrow> request_line_spec l) of
      None \<Rightarrow> \<exists>rq' tg. http_parse_request_line (s @ NUL # j) rq 4096 = Some (-1, rq', tg)
    | Some (m, t, v) \<Rightarrow> http_parse_request_line (s @ NUL # j) rq 4096 =
        Some (0, rq\<lparr>rq_method := m, rq_version := v\<rparr>, t @ [NUL])"
proof (cases "crlf_split s")
  case None
  then show ?thesis
    using strstr_crlf_eq [OF assms, of "[]" j] by (simp add: http_parse_request_line_def)
next
  case (Some lr)
  then obtain l r where lr: "crlf_split s = Some (l, r)" by (cases lr) auto
  then have s: "s = l @ CRLF @ r" by (rule crlf_split_SomeD)
  let ?b = "s @ NUL # j"
  have le: "strstr ?b 0 CRLF = Some (Some (length l))"
    using strstr_crlf_eq [OF assms, of "[]" j] by (simp add: lr)
  have chr: "memchr ?b (length p) SP (length q) =
      Some (map_option (\<lambda>(a, z). length p + length a) (split_on SP q))" if "l = p @ q" for p q
    by (cases "split_on SP q") (auto simp: that s memchr_def clib_simps)
  show ?thesis
  proof (cases "split_on SP l")
    case None
    then show ?thesis
      using chr [of "[]" l] by (simp add: http_parse_request_line_def le lr request_line_spec_def)
  next
    case (Some mr)
    then obtain m w where mw: "split_on SP l = Some (m, w)" by (cases mr) auto
    then have l: "l = m @ SP # w" by (simp add: split_on_Some)
    have first: "memchr ?b 0 SP (length l) = Some (Some (length m))"
      using chr [of "[]" l] by (simp add: mw)
    have second: "memchr ?b (Suc (length m)) SP (length w) =
        Some (map_option (\<lambda>(a, z). Suc (length m + length a)) (split_on SP w))"
      using chr [of "m @ [SP]" w] by (simp add: l)
    show ?thesis
    proof (cases "split_on SP w")
      case None
      with first second show ?thesis
        by (simp add: http_parse_request_line_def le lr request_line_spec_def mw) (simp add: l)
    next
      case (Some tv)
      then obtain t v where tv: "split_on SP w = Some (t, v)" by (cases tv) auto
      then have w: "w = t @ SP # v" by (simp add: split_on_Some)
      have third: "memchr ?b (Suc (Suc (length m + length t))) SP (length v) =
          Some (map_option (\<lambda>(a, z). Suc (Suc (length m + length t)) + length a) (split_on SP v))"
        using chr [of "m @ SP # t @ [SP]" v] by (simp add: l w)
      have second': "memchr ?b (Suc (length m)) SP (length t + Suc (length v)) =
          Some (Some (Suc (length m + length t)))"
        using second tv by (simp add: w)
      have b: "?b = m @ SP # t @ SP # v @ CRLF @ r @ NUL # j" by (simp add: s l w)
      have "NUL \<notin> set (m @ t @ v)" using assms by (auto simp: s l w)
      note store = http_store_request_line_eq [OF this, of "CRLF @ r @ NUL # j" rq, folded b]
      have len: "length l = length m + length t + length v + 2" by (simp add: l w)
      have sp: "SP \<in> set v \<longleftrightarrow> split_on SP v \<noteq> None" by (simp add: split_on_None)
      show ?thesis
        using first second' third store
        by (cases "split_on SP v")
          (auto simp: http_parse_request_line_def le lr request_line_spec_def mw tv len sp
            split: option.splits if_splits)
    qed
  qed
qed

section \<open>The request\<close>

text \<open>
  What a parsed request says: method, decoded path, query, version and headers. \<open>request_spec\<close>
  gives it for a byte string, or the error the parser reports.
\<close>

record request_view =
  v_method :: bytes
  v_path :: bytes
  v_query :: bytes
  v_version :: bytes
  v_headers :: "http_header_t list"

definition view :: "http_request_t \<Rightarrow> request_view" where
  "view rq = \<lparr>v_method = rq_method rq, v_path = rq_path rq, v_query = rq_query rq,
     v_version = rq_version rq, v_headers = active_headers rq\<rparr>"

definition request_spec :: "server_config_t \<Rightarrow> bytes \<Rightarrow> http_parse_result_t + request_view" where
  "request_spec config s =
     (case crlf_split s of
        None \<Rightarrow> Inl HTTP_PARSE_BAD_REQUEST
      | Some (l, r) \<Rightarrow>
          (case request_line_spec l of
             None \<Rightarrow> Inl HTTP_PARSE_BAD_REQUEST
           | Some (m, t, v) \<Rightarrow>
               if v \<noteq> ''HTTP/1.1'' \<and> v \<noteq> ''HTTP/1.0'' then Inl HTTP_PARSE_BAD_REQUEST
               else
                 (case target_spec t of
                    None \<Rightarrow> Inl HTTP_PARSE_BAD_REQUEST
                  | Some (p, q) \<Rightarrow>
                      (case headers_spec config r 0 of
                         (res, hs) \<Rightarrow>
                           if res = HTTP_PARSE_OK
                           then Inr \<lparr>v_method = m, v_path = p, v_query = q, v_version = v,
                                     v_headers = hs\<rparr>
                           else Inl res))))"

lemma request_line_spec_target:
  "request_line_spec l = Some (m, t, v) \<Longrightarrow> t \<noteq> [] \<and> length t < 4096 \<and> set t \<subseteq> set l"
  by (auto simp: request_line_spec_def split_on_Some split: option.splits if_splits)

lemma http_parse_headers_refines:
  assumes "NUL \<notin> set s" "limits_ok config" "request_wf rq" "crlf_split s = Some (l, r)"
  shows "\<exists>rq'. http_parse_headers (s @ NUL # j) rq config =
      Some (fst (headers_spec config r (rq_header_count rq)), rq') \<and>
    (fst (headers_spec config r (rq_header_count rq)) = HTTP_PARSE_OK \<longrightarrow>
      table_extends rq (snd (headers_spec config r (rq_header_count rq))) rq')"
proof -
  have s: "s = l @ CRLF @ r" using assms(4) by (rule crlf_split_SomeD)
  have "strstr (s @ NUL # j) 0 CRLF = Some (Some (length l))"
    using strstr_crlf_eq [OF assms(1), of "[]" j] by (simp add: assms(4))
  moreover have "NUL \<notin> set r" using assms(1) by (simp add: s)
  ultimately show ?thesis
    using http_headers_loop_refines [of r config rq "l @ CRLF" j] assms(2,3)
    by (simp add: http_parse_headers_def s)
qed

lemma http_parse_request_refines:
  assumes "NUL \<notin> set s" "limits_ok config" "length (rq_headers rq) = HTTP_MAX_HEADERS"
  shows "\<exists>rq'. case request_spec config s of
      Inl e \<Rightarrow> http_parse_request (Some (s @ NUL # j)) (Some rq) config = Some (e, Some rq')
    | Inr w \<Rightarrow> http_parse_request (Some (s @ NUL # j)) (Some rq) config =
          Some (HTTP_PARSE_OK, Some rq') \<and> request_wf rq' \<and> view rq' = w"
proof -
  let ?b = "s @ NUL # j" and ?rq0 = "rq\<lparr>rq_header_count := 0, rq_query := []\<rparr>"
  note line = http_parse_request_line_refines [OF assms(1), of j ?rq0]
  show ?thesis
  proof (cases "case crlf_split s of None \<Rightarrow> None | Some (l, r) \<Rightarrow> request_line_spec l")
    case None
    with line obtain rq1 tg where "http_parse_request_line ?b ?rq0 4096 = Some (-1, rq1, tg)" by auto
    with None show ?thesis
      by (auto simp: http_parse_request_def request_spec_def split: option.splits)
  next
    case (Some mtv)
    then obtain l r m t v where lr: "crlf_split s = Some (l, r)"
      and mtv: "request_line_spec l = Some (m, t, v)"
      by (cases mtv) (auto split: option.splits)
    let ?rq1 = "?rq0\<lparr>rq_method := m, rq_version := v\<rparr>"
    from line lr mtv have rl: "http_parse_request_line ?b ?rq0 4096 = Some (0, ?rq1, t @ [NUL])"
      by simp
    have t: "NUL \<notin> set t" "t \<noteq> []" "length t < 4096"
      using request_line_spec_target [OF mtv] crlf_split_SomeD [OF lr] assms(1) by auto
    note tgt = http_parse_target_refines [OF t, of ?rq1]
    show ?thesis
    proof (cases "target_spec t")
      case None
      with tgt obtain rq2 where "http_parse_target (t @ [NUL]) ?rq1 = Some (-1, rq2)" by auto
      with None lr mtv rl show ?thesis by (auto simp: http_parse_request_def request_spec_def)
    next
      case (Some pq)
      then obtain p q where pq: "target_spec t = Some (p, q)" by (cases pq) auto
      let ?rq2 = "?rq1\<lparr>rq_query := q, rq_path := p\<rparr>"
      from tgt pq have tp: "http_parse_target (t @ [NUL]) ?rq1 = Some (0, ?rq2)" by simp
      have "request_wf ?rq2" using assms(3) by (simp add: request_wf_def)
      then obtain rq' where hd: "http_parse_headers ?b ?rq2 config =
          Some (fst (headers_spec config r 0), rq')"
        "fst (headers_spec config r 0) = HTTP_PARSE_OK \<longrightarrow>
          table_extends ?rq2 (snd (headers_spec config r 0)) rq'"
        using http_parse_headers_refines [OF assms(1,2) _ lr, of ?rq2 j] by auto
      have "view rq' = \<lparr>v_method = m, v_path = p, v_query = q, v_version = v, v_headers = hs\<rparr> \<and>
          request_wf rq'" if "table_extends ?rq2 hs rq'" for hs
        using that by (cases rq') (auto simp: table_extends_def view_def active_headers_def)
      with hd lr mtv rl pq tp show ?thesis
        by (cases "headers_spec config r 0")
          (auto simp: http_parse_request_def request_spec_def Let_def)
    qed
  qed
qed

section \<open>The end of the header block\<close>

definition HEND :: bytes where "HEND = CRLF @ CRLF"

lemma length_HEND [simp]: "length HEND = 4"
  by (simp add: HEND_def)

fun header_end_spec :: "bytes \<Rightarrow> nat option" where
  "header_end_spec [] = None"
| "header_end_spec (c # s) =
     (if prefix HEND (c # s) then Some 4 else map_option Suc (header_end_spec s))"

lemma header_end_spec_short: "length s < 4 \<Longrightarrow> header_end_spec s = None"
  by (induction s) (auto dest: prefix_length_le)

lemma header_end_spec_bounds: "header_end_spec s = Some e \<Longrightarrow> 4 \<le> e \<and> e \<le> length s"
  by (induction s arbitrary: e) (auto split: if_splits dest: prefix_length_le)

lemma header_end_spec_append: "header_end_spec s = Some e \<Longrightarrow> header_end_spec (s @ t) = Some e"
proof (induction s arbitrary: e)
  case Nil
  then show ?case by simp
next
  case (Cons c s)
  show ?case
  proof (cases "prefix HEND (c # s)")
    case True
    then have "prefix HEND (c # s @ t)" using prefix_prefix [OF True, of t] by simp
    with True Cons.prems show ?thesis by simp
  next
    case False
    with Cons.prems obtain e' where e': "header_end_spec s = Some e'" "e = Suc e'"
      by (auto split: if_splits)
    then have "4 \<le> length s" using header_end_spec_bounds by fastforce
    then have "\<not> prefix HEND (c # s @ t)"
      using False prefix_length_prefix [of HEND "c # s @ t" "c # s"] by auto
    with Cons.IH [OF e'(1)] e'(2) show ?thesis by simp
  qed
qed

lemma header_end_spec_take: "header_end_spec s = Some e \<Longrightarrow> header_end_spec (take e s) = Some e"
proof (induction s arbitrary: e)
  case Nil
  then show ?case by simp
next
  case (Cons c s)
  show ?case
  proof (cases "prefix HEND (c # s)")
    case True
    with Cons.prems have e: "e = Suc 3" by simp
    with True have "prefix HEND (take e (c # s))"
      using prefix_length_prefix [OF True take_is_prefix, of e] prefix_length_le [OF True] by simp
    with e show ?thesis by simp
  next
    case False
    with Cons.prems obtain e' where e': "header_end_spec s = Some e'" "e = Suc e'"
      by (auto split: if_splits)
    have "\<not> prefix HEND (c # take e' s)"
      using False prefix_order.trans [OF _ take_is_prefix [of e "c # s"]] e'(2) by auto
    with Cons.IH [OF e'(1)] e'(2) show ?thesis by simp
  qed
qed

lemma header_end_spec_ends: "header_end_spec s = Some e \<Longrightarrow> \<exists>x. take e s = x @ HEND"
proof (induction s arbitrary: e)
  case Nil
  then show ?case by simp
next
  case (Cons c s)
  show ?case
  proof (cases "prefix HEND (c # s)")
    case True
    with Cons.prems have "e = length HEND" by simp
    moreover from True obtain z where "c # s = HEND @ z" by (auto simp: prefix_def)
    ultimately have "take e (c # s) = [] @ HEND" by simp
    then show ?thesis by blast
  next
    case False
    with Cons.prems obtain e' where e': "header_end_spec s = Some e'" "e = Suc e'"
      by (auto split: if_splits)
    with Cons.IH obtain x where "take e' s = x @ HEND" by blast
    then have "take e (c # s) = (c # x) @ HEND" by (simp add: e'(2))
    then show ?thesis by blast
  qed
qed

lemma http_crlf_crlf_at_eq:
  assumes "i + 4 \<le> len" "len \<le> length b"
  shows "http_crlf_crlf_at b i = Some (prefix HEND (drop i (take len b)))"
proof -
  have reads: "rd b (i + k) = Some (b ! (i + k))" if "k < 4" for k
    using that assms by (simp add: rd_def)
  have step: "drop k (take len b) = b ! k # drop (Suc k) (take len b)" if "k < i + 4" for k
    using that assms by (subst Cons_nth_drop_Suc [symmetric]) auto
  have "drop i (take len b) = b ! i # b ! (i + 1) # b ! (i + 2) # b ! (i + 3) # drop (i + 4) (take len b)"
    using step [of i] step [of "i + 1"] step [of "i + 2"] step [of "i + 3"]
    by (simp add: numeral_eq_Suc)
  then show ?thesis
    using reads [of 0] reads [of 1] reads [of 2] reads [of 3]
    by (auto simp: http_crlf_crlf_at_def HEND_def)
qed

lemma find_header_end_loop_eq:
  assumes "4 \<le> len" "len \<le> length b" "size_ok len" "i \<le> len"
  shows "http_find_header_end_loop b len i =
    Some (map_option ((+) i) (header_end_spec (drop i (take len b))))"
  using assms(4)
proof (induction "len - i" arbitrary: i)
  case 0
  then have "len = i" by simp
  with assms show ?case
    by (subst http_find_header_end_loop.simps) (auto simp: mem_simps)
next
  case (Suc n)
  show ?case
  proof (cases "i + 4 \<le> len")
    case False
    then show ?thesis
      using assms by (subst http_find_header_end_loop.simps)
        (auto simp: mem_simps header_end_spec_short)
  next
    case True
    let ?s = "drop i (take len b)"
    have s: "?s = b ! i # drop (Suc i) (take len b)"
      using True assms by (subst Cons_nth_drop_Suc [symmetric]) auto
    have at: "http_crlf_crlf_at b i = Some (prefix HEND ?s)"
      using True assms(2) by (rule http_crlf_crlf_at_eq)
    have "http_find_header_end_loop b len i =
        (if prefix HEND ?s then Some (Some (i + 4))
         else http_find_header_end_loop b len (Suc i))"
      using True assms at by (subst http_find_header_end_loop.simps) (auto simp: mem_simps)
    also have "http_find_header_end_loop b len (Suc i) =
        Some (map_option ((+) (Suc i)) (header_end_spec (drop (Suc i) (take len b))))"
      using Suc(2) True by (intro Suc(1)) auto
    finally show ?thesis
      by (cases "header_end_spec (drop (Suc i) (take len b))") (auto simp: s)
  qed
qed

lemma http_find_header_end_eq:
  assumes "len \<le> length b" "size_ok len"
  shows "http_find_header_end b len = Some (header_end_spec (take len b))"
  using assms find_header_end_loop_eq [of len b 0] header_end_spec_short [of "take len b"]
  by (cases "header_end_spec (take len b)") (auto simp: http_find_header_end_def)

end
