(* ===== verification/Http_Connection.thy ===== *)
theory Http_Connection
  imports Http_Response Http_Grammar
begin

text \<open>
  \<open>include/http_connection.h\<close> and \<open>src/http_connection.c\<close>: the receive buffer of a connection.
  The buffer is the object \<open>malloc\<close> returned; \<open>size_t\<close> arithmetic wraps.
\<close>

record http_connection_t =
  cn_buffer :: "bytes option"
  cn_buffer_used :: nat
  cn_buffer_capacity :: nat
  cn_close_connection :: bool
  cn_response :: http_response_t

section \<open>Operations\<close>

definition http_connection_init ::
    "kernel \<Rightarrow> http_connection_t option \<Rightarrow> nat \<Rightarrow> trace \<Rightarrow> int \<times> http_connection_t option \<times> trace" where
  "http_connection_init k connection buffer_capacity tr =
     (case connection of
        None \<Rightarrow> (-1, None, tr)
      | Some c \<Rightarrow>
          if buffer_capacity = 0 then (-1, Some c, tr)
          else
            (case malloc k buffer_capacity tr of
               (None, tr') \<Rightarrow> (-1, Some (c\<lparr>cn_buffer := None\<rparr>), tr')
             | (Some b, tr') \<Rightarrow>
                 (0, Some (c\<lparr>cn_buffer := Some b, cn_buffer_used := 0,
                            cn_buffer_capacity := buffer_capacity,
                            cn_close_connection := False\<rparr>), tr')))"

definition http_connection_destroy :: "http_connection_t option \<Rightarrow> http_connection_t option" where
  "http_connection_destroy connection =
     map_option (\<lambda>c. c\<lparr>cn_buffer := None, cn_buffer_used := 0, cn_buffer_capacity := 0,
                       cn_close_connection := False\<rparr>) connection"

definition http_connection_feed ::
    "http_connection_t option \<Rightarrow> bytes option \<Rightarrow> nat \<Rightarrow> (int \<times> http_connection_t option) option" where
  "http_connection_feed connection data len =
     (case (connection, data) of
        (Some c, Some d) \<Rightarrow>
          if len > size_sub (cn_buffer_capacity c) (cn_buffer_used c) then Some (-1, Some c)
          else
            do {
              b \<leftarrow> cn_buffer c;
              bs \<leftarrow> rd_bytes d 0 len;
              b' \<leftarrow> blit b (cn_buffer_used c) bs;
              Some (0, Some (c\<lparr>cn_buffer := Some b',
                              cn_buffer_used := size_add (cn_buffer_used c) len\<rparr>))
            }
      | _ \<Rightarrow> Some (-1, connection))"

definition http_connection_data :: "http_connection_t option \<Rightarrow> bytes option" where
  "http_connection_data connection = (case connection of None \<Rightarrow> None | Some c \<Rightarrow> cn_buffer c)"

definition http_connection_data_length :: "http_connection_t option \<Rightarrow> nat" where
  "http_connection_data_length connection =
     (case connection of None \<Rightarrow> 0 | Some c \<Rightarrow> cn_buffer_used c)"

definition http_connection_request_ready :: "http_connection_t option \<Rightarrow> bool option" where
  "http_connection_request_ready connection =
     (case connection of
        None \<Rightarrow> Some False
      | Some c \<Rightarrow>
          do {
            b \<leftarrow> cn_buffer c;
            http_request_complete b (cn_buffer_used c)
          })"

definition http_connection_buffer_space :: "http_connection_t option \<Rightarrow> nat" where
  "http_connection_buffer_space connection =
     (case connection of
        None \<Rightarrow> 0
      | Some c \<Rightarrow> size_sub (cn_buffer_capacity c) (cn_buffer_used c))"

definition http_connection_request_length :: "http_connection_t option \<Rightarrow> nat option" where
  "http_connection_request_length connection =
     (case connection of
        None \<Rightarrow> Some 0
      | Some c \<Rightarrow>
          do {
            b \<leftarrow> cn_buffer c;
            header_end \<leftarrow> http_find_header_end b (cn_buffer_used c);
            Some (case header_end of None \<Rightarrow> 0 | Some e \<Rightarrow> e)
          })"

definition http_connection_consume ::
    "http_connection_t option \<Rightarrow> nat \<Rightarrow> http_connection_t option option" where
  "http_connection_consume connection len =
     (case connection of
        None \<Rightarrow> Some None
      | Some c \<Rightarrow>
          if len > cn_buffer_used c then Some (Some c)
          else
            (let remaining = size_sub (cn_buffer_used c) len
             in do {
                  b' \<leftarrow> (if remaining > 0 then
                            do {
                              b \<leftarrow> cn_buffer c;
                              bs \<leftarrow> rd_bytes b len remaining;
                              map_option Some (blit b 0 bs)
                            }
                          else Some (cn_buffer c));
                  Some (Some (c\<lparr>cn_buffer := b', cn_buffer_used := remaining\<rparr>))
                }))"

section \<open>The buffer as a queue of bytes\<close>

text \<open>
  The interface the connection handler uses: a bounded queue of bytes. \<open>feed\<close> is \<open>None\<close> when
  the bytes do not fit, and \<open>consume\<close> removes bytes at the front.
\<close>

locale byte_queue =
  fixes inv :: "'c \<Rightarrow> bool"
    and contents :: "'c \<Rightarrow> bytes"
    and capacity :: "'c \<Rightarrow> nat"
    and feed :: "'c \<Rightarrow> bytes \<Rightarrow> 'c option"
    and consume :: "'c \<Rightarrow> nat \<Rightarrow> 'c"
  assumes contents_fit: "inv c \<Longrightarrow> length (contents c) \<le> capacity c"
    and feed_fits: "inv c \<Longrightarrow> length (contents c) + length d \<le> capacity c \<Longrightarrow>
      \<exists>c'. feed c d = Some c' \<and> inv c' \<and> contents c' = contents c @ d \<and> capacity c' = capacity c"
    and feed_full: "inv c \<Longrightarrow> capacity c < length (contents c) + length d \<Longrightarrow> feed c d = None"
    and consume_inv: "inv c \<Longrightarrow> n \<le> length (contents c) \<Longrightarrow> inv (consume c n)"
    and consume_contents: "inv c \<Longrightarrow> n \<le> length (contents c) \<Longrightarrow>
      contents (consume c n) = drop n (contents c)"
    and consume_capacity: "inv c \<Longrightarrow> n \<le> length (contents c) \<Longrightarrow>
      capacity (consume c n) = capacity c"
begin

primrec feed_all :: "'c \<Rightarrow> bytes list \<Rightarrow> 'c option" where
  "feed_all c [] = Some c"
| "feed_all c (d # ds) = (case feed c d of None \<Rightarrow> None | Some c' \<Rightarrow> feed_all c' ds)"

text \<open>How the bytes were cut into pieces on the way does not matter.\<close>

lemma fragments:
  "inv c \<Longrightarrow> length (contents c) + length (concat ds) \<le> capacity c \<Longrightarrow>
   \<exists>c'. feed_all c ds = Some c' \<and> inv c' \<and> contents c' = contents c @ concat ds \<and>
     capacity c' = capacity c"
proof (induction ds arbitrary: c)
  case Nil
  then show ?case by simp
next
  case (Cons d ds)
  from Cons.prems feed_fits [of c d] obtain c1 where c1: "feed c d = Some c1" "inv c1"
    "contents c1 = contents c @ d" "capacity c1 = capacity c" by auto
  with Cons.IH [of c1] Cons.prems(2) show ?case by auto
qed

text \<open>First in, first out: bytes come out in the order they went in.\<close>

lemma fifo:
  assumes "inv c" "length (contents c) + length d \<le> capacity c"
  obtains c' where "feed c d = Some c'" "inv c'"
    and "contents (consume c' (length (contents c))) = d"
proof -
  from feed_fits [OF assms] obtain c' where "feed c d = Some c'" "inv c'"
    "contents c' = contents c @ d" by blast
  then show thesis using consume_contents [of c' "length (contents c)"] that by simp
qed

text \<open>Consuming makes the room available again.\<close>

lemma reuse:
  assumes "inv c" "n \<le> length (contents c)" "length d \<le> n"
  shows "\<exists>c'. feed (consume c n) d = Some c' \<and> inv c' \<and> contents c' = drop n (contents c) @ d"
proof -
  have "length (contents (consume c n)) + length d \<le> capacity (consume c n)"
    using assms contents_fit [OF assms(1)] by (simp add: consume_contents consume_capacity)
  then show ?thesis
    using feed_fits [OF consume_inv [OF assms(1,2)], of d] assms by (auto simp: consume_contents)
qed

end

definition connection_inv :: "http_connection_t \<Rightarrow> bool" where
  "connection_inv c \<longleftrightarrow>
     (\<exists>b. cn_buffer c = Some b \<and> length b = cn_buffer_capacity c) \<and>
     cn_buffer_used c \<le> cn_buffer_capacity c \<and> size_ok (cn_buffer_capacity c)"

definition connection_contents :: "http_connection_t \<Rightarrow> bytes" where
  "connection_contents c =
     (case cn_buffer c of None \<Rightarrow> [] | Some b \<Rightarrow> take (cn_buffer_used c) b)"

definition connection_feed :: "http_connection_t \<Rightarrow> bytes \<Rightarrow> http_connection_t option" where
  "connection_feed c d =
     (case http_connection_feed (Some c) (Some d) (length d) of
        Some (r, Some c') \<Rightarrow> if r = 0 then Some c' else None
      | _ \<Rightarrow> None)"

definition connection_consume :: "http_connection_t \<Rightarrow> nat \<Rightarrow> http_connection_t" where
  "connection_consume c n =
     (case http_connection_consume (Some c) n of Some (Some c') \<Rightarrow> c' | _ \<Rightarrow> c)"

lemma connection_invE:
  assumes "connection_inv c"
  obtains b where "cn_buffer c = Some b" "length b = cn_buffer_capacity c"
    "cn_buffer_used c \<le> cn_buffer_capacity c" "size_ok (cn_buffer_capacity c)"
    "size_ok (cn_buffer_used c)" "connection_contents c = take (cn_buffer_used c) b"
  using assms by (auto simp: connection_inv_def connection_contents_def intro: size_ok_mono)

lemma length_connection_contents:
  "connection_inv c \<Longrightarrow> length (connection_contents c) = cn_buffer_used c"
  by (erule connection_invE) simp

lemma http_connection_feed_fits:
  assumes "connection_inv c" "cn_buffer_used c + length d \<le> cn_buffer_capacity c"
  shows "\<exists>b'. http_connection_feed (Some c) (Some (d @ x)) (length d) =
      Some (0, Some (c\<lparr>cn_buffer := Some b', cn_buffer_used := cn_buffer_used c + length d\<rparr>)) \<and>
    length b' = cn_buffer_capacity c \<and>
    take (cn_buffer_used c + length d) b' = connection_contents c @ d"
  using assms(1)
proof (rule connection_invE)
  fix b
  assume b: "cn_buffer c = Some b" "length b = cn_buffer_capacity c"
    "cn_buffer_used c \<le> cn_buffer_capacity c" "size_ok (cn_buffer_capacity c)"
    "connection_contents c = take (cn_buffer_used c) b"
  moreover have "size_ok (cn_buffer_used c + length d)"
    using b(4) assms(2) by (rule size_ok_mono)
  ultimately show ?thesis using assms(2)
    by (intro exI [of _ "take (cn_buffer_used c) b @ d @ drop (cn_buffer_used c + length d) b"])
      (auto simp: http_connection_feed_def size_sub_exact size_add_exact rd_bytes_def blit_def)
qed

lemma http_connection_feed_full:
  assumes "connection_inv c" "cn_buffer_capacity c < cn_buffer_used c + length d"
  shows "http_connection_feed (Some c) (Some (d @ x)) (length d) = Some (-1, Some c)"
  using assms by (auto elim!: connection_invE simp: http_connection_feed_def size_sub_exact)

lemma http_connection_consume_ok:
  assumes "connection_inv c" "n \<le> cn_buffer_used c"
  shows "\<exists>b'. http_connection_consume (Some c) n =
      Some (Some (c\<lparr>cn_buffer := Some b', cn_buffer_used := cn_buffer_used c - n\<rparr>)) \<and>
    length b' = cn_buffer_capacity c \<and>
    take (cn_buffer_used c - n) b' = drop n (connection_contents c)"
  using assms(1)
proof (rule connection_invE)
  fix b
  assume "cn_buffer c = Some b" "length b = cn_buffer_capacity c"
    "cn_buffer_used c \<le> cn_buffer_capacity c" "size_ok (cn_buffer_used c)"
    "connection_contents c = take (cn_buffer_used c) b"
  then show ?thesis using assms(2)
    by (auto simp: http_connection_consume_def size_sub_exact rd_bytes_def blit_def Let_def
        drop_take)
qed

interpretation conn: byte_queue connection_inv connection_contents cn_buffer_capacity
  connection_feed connection_consume
proof
  fix c d
  assume inv: "connection_inv c"
  note len = length_connection_contents [OF inv]
  show "length (connection_contents c) \<le> cn_buffer_capacity c"
    using inv by (auto simp: len connection_inv_def)
  show "\<exists>c'. connection_feed c d = Some c' \<and> connection_inv c' \<and>
      connection_contents c' = connection_contents c @ d \<and> cn_buffer_capacity c' = cn_buffer_capacity c"
    if "length (connection_contents c) + length d \<le> cn_buffer_capacity c"
    using http_connection_feed_fits [OF inv, of d "[]"] that inv
    by (auto simp: len connection_feed_def connection_inv_def connection_contents_def)
  show "connection_feed c d = None"
    if "cn_buffer_capacity c < length (connection_contents c) + length d"
    using http_connection_feed_full [OF inv, of d "[]"] that by (simp add: len connection_feed_def)
next
  fix c n
  assume inv: "connection_inv c" and "n \<le> length (connection_contents c)"
  then have "n \<le> cn_buffer_used c" by (simp add: length_connection_contents)
  from http_connection_consume_ok [OF inv this] inv
  show "connection_inv (connection_consume c n)"
    and "connection_contents (connection_consume c n) = drop n (connection_contents c)"
    and "cn_buffer_capacity (connection_consume c n) = cn_buffer_capacity c"
    by (auto simp: connection_consume_def connection_inv_def connection_contents_def)
qed

section \<open>Finding requests\<close>

lemma http_connection_ready_eq:
  assumes "connection_inv c"
  shows "http_connection_request_ready (Some c) = Some (header_end_spec (connection_contents c) \<noteq> None)"
    and "http_connection_request_length (Some c) =
      Some (case header_end_spec (connection_contents c) of None \<Rightarrow> 0 | Some e \<Rightarrow> e)"
  using assms
  by (auto elim!: connection_invE simp: http_connection_request_ready_def http_request_complete_def
      http_connection_request_length_def http_find_header_end_eq)

lemma http_connection_space_eq:
  "connection_inv c \<Longrightarrow>
   http_connection_buffer_space (Some c) = cn_buffer_capacity c - length (connection_contents c)"
  by (auto elim!: connection_invE simp: http_connection_buffer_space_def size_sub_exact)

lemma http_connection_init_ok:
  assumes "http_connection_init k (Some c) cap tr = (0, Some c', tr')" "size_ok cap"
  shows "connection_inv c' \<and> connection_contents c' = [] \<and> cn_buffer_capacity c' = cap \<and>
    \<not> cn_close_connection c'"
  using assms malloc_length
  by (fastforce simp: http_connection_init_def connection_inv_def connection_contents_def
      split: if_splits prod.splits option.splits)

primrec connection_feed_all :: "http_connection_t \<Rightarrow> bytes list \<Rightarrow> http_connection_t option" where
  "connection_feed_all c [] = Some c"
| "connection_feed_all c (d # ds) =
     (case connection_feed c d of None \<Rightarrow> None | Some c' \<Rightarrow> connection_feed_all c' ds)"

lemma connection_feed_all_eq: "connection_feed_all c ds = conn.feed_all c ds"
  by (induction ds arbitrary: c) (simp_all split: option.splits)

section \<open>Properties\<close>

definition example_connection :: http_connection_t where
  "example_connection = \<lparr>cn_buffer = Some (''ab'' @ replicate 62 NUL), cn_buffer_used = 2,
     cn_buffer_capacity = 64, cn_close_connection = False, cn_response = fresh_response\<rparr>"

lemma example_connection_inv [simp]: "connection_inv example_connection"
  by (simp add: connection_inv_def example_connection_def size_ok_def)

lemma example_connection_simps [simp]:
  "connection_contents example_connection = ''ab''" "cn_buffer_capacity example_connection = 64"
  "cn_buffer_used example_connection = 2"
  by (simp_all add: connection_contents_def example_connection_def)

text \<open>
  C20: How the network cuts the bytes of a client into pieces does not matter: feeding the pieces
  one after the other, as long as they fit, leaves exactly their concatenation behind the bytes
  that were in the buffer.
\<close>

theorem connection_fragments:
  assumes "connection_inv c"
    and "length (connection_contents c) + length (concat ds) \<le> cn_buffer_capacity c"
  shows "\<exists>c'. connection_feed_all c ds = Some c' \<and> connection_inv c' \<and>
    connection_contents c' = connection_contents c @ concat ds \<and>
    cn_buffer_capacity c' = cn_buffer_capacity c"
  using conn.fragments [OF assms] by (simp add: connection_feed_all_eq)

theorem connection_fragments_witness:
  "\<exists>c'. connection_feed_all example_connection [''GE'', [], ''T /''] = Some c' \<and>
    connection_contents c' = ''abGET /''"
  using connection_fragments [of example_connection "[''GE'', [], ''T /'']"] by auto

text \<open>
  C21: \<open>http_connection_feed\<close> accepts data exactly when it fits the free space. Then it appends the
  data and keeps the buffer well formed; otherwise it returns \<open>-1\<close> and leaves the connection as
  it was. It never writes outside the buffer.
\<close>

theorem http_connection_feed_correct:
  assumes "connection_inv c"
  shows "\<exists>c'. http_connection_feed (Some c) (Some (d @ x)) (length d) =
      Some (if length (connection_contents c) + length d \<le> cn_buffer_capacity c then 0 else -1, Some c') \<and>
    connection_inv c' \<and> cn_buffer_capacity c' = cn_buffer_capacity c \<and>
    (if length (connection_contents c) + length d \<le> cn_buffer_capacity c
     then connection_contents c' = connection_contents c @ d else c' = c)"
proof (cases "length (connection_contents c) + length d \<le> cn_buffer_capacity c")
  case True
  with http_connection_feed_fits [OF assms, of d x] assms show ?thesis
    by (auto simp: length_connection_contents [OF assms] connection_inv_def connection_contents_def)
next
  case False
  with http_connection_feed_full [OF assms, of d x] assms show ?thesis
    by (auto simp: length_connection_contents [OF assms])
qed

theorem http_connection_feed_correct_witness:
  "\<exists>c'. http_connection_feed (Some example_connection) (Some (replicate 63 CHR ''z'' @ [])) 63 =
     Some (-1, Some c') \<and> c' = example_connection"
  using http_connection_feed_correct [of example_connection "replicate 63 CHR ''z''" "[]"] by simp

text \<open>
  C22: \<open>http_connection_consume\<close> removes exactly the first \<open>n\<close> bytes, keeps the order of the rest,
  and makes their room available again: data of up to \<open>n\<close> bytes can be fed after it.
\<close>

theorem connection_consume_reuse:
  assumes "connection_inv c" "n \<le> length (connection_contents c)" "length d \<le> n"
  shows "connection_contents (connection_consume c n) = drop n (connection_contents c) \<and>
    (\<exists>c'. connection_feed (connection_consume c n) d = Some c' \<and> connection_inv c' \<and>
      connection_contents c' = drop n (connection_contents c) @ d)"
  using conn.consume_contents [OF assms(1,2)] conn.reuse [OF assms] by blast

theorem connection_consume_reuse_witness:
  "connection_contents (connection_consume example_connection 1) = ''b'' \<and>
   (\<exists>c'. connection_feed (connection_consume example_connection 1) ''z'' = Some c' \<and>
      connection_contents c' = ''bz'')"
  using connection_consume_reuse [of example_connection 1 "''z''"] by auto

text \<open>
  C19: Once a request is complete its boundary is fixed: bytes that arrive later, pipelined
  requests included, change neither that it is ready nor its length.
\<close>

theorem request_length_stable:
  assumes "connection_inv c" "http_connection_request_ready (Some c) = Some True"
    and "connection_feed c d = Some c'"
  shows "http_connection_request_ready (Some c') = Some True \<and>
    http_connection_request_length (Some c') = http_connection_request_length (Some c)"
proof -
  obtain e where e: "header_end_spec (connection_contents c) = Some e"
    using http_connection_ready_eq(1) [OF assms(1)] assms(2) by auto
  have "length (connection_contents c) + length d \<le> cn_buffer_capacity c"
    using conn.feed_full [OF assms(1), of d] assms(3) by (cases "cn_buffer_capacity c < length (connection_contents c) + length d") auto
  with conn.feed_fits [OF assms(1)] assms(3) have "connection_inv c'"
    "connection_contents c' = connection_contents c @ d" by fastforce+
  with e header_end_spec_append [OF e, of d] http_connection_ready_eq [of c']
    http_connection_ready_eq [OF assms(1)] show ?thesis by simp
qed

theorem request_length_stable_witness:
  "\<exists>c c'. connection_feed example_connection HEND = Some c \<and> connection_feed c ''GET'' = Some c' \<and>
    http_connection_request_length (Some c') = Some 6"
proof -
  obtain c where c: "connection_feed example_connection HEND = Some c" "connection_inv c"
    "connection_contents c = ''ab'' @ HEND" "cn_buffer_capacity c = 64"
    using conn.feed_fits [of example_connection HEND] by auto
  obtain c' where c': "connection_feed c ''GET'' = Some c'"
    using conn.feed_fits [of c "''GET''"] c by auto
  have e: "header_end_spec (''ab'' @ HEND) = Some 6" by code_simp
  then have "http_connection_request_ready (Some c) = Some True"
    "http_connection_request_length (Some c) = Some 6"
    using http_connection_ready_eq [OF c(2)] c(3) by auto
  with request_length_stable [OF c(2) _ c'] c(1) c' show ?thesis by auto
qed

end
