(* ===== verification/Http_Roundtrip.thy ===== *)
theory Http_Roundtrip
  imports Http_Grammar
begin

text \<open>
  What the refinement of the parser gives: well-formed requests as a client writes them are
  parsed back to what the client meant, and everything the parser accepts is well-formed.
\<close>

section \<open>Percent encoding\<close>

definition unreserved :: "char \<Rightarrow> bool" where
  "unreserved c \<longleftrightarrow> isdigit c \<or> (65 \<le> uchar c \<and> uchar c \<le> 90) \<or> (97 \<le> uchar c \<and> uchar c \<le> 122) \<or>
     c \<in> set [CHR ''/'', CHR ''-'', CHR ''_'', CHR ''.'', CHR ''~'']"

definition hex_char :: "nat \<Rightarrow> char" where
  "hex_char n = (if n < 10 then char_of (48 + n) else char_of (55 + n))"

definition url_encode_byte :: "char \<Rightarrow> bytes" where
  "url_encode_byte c =
     (if unreserved c then [c]
      else [CHR ''%'', hex_char (nat (uchar c) div 16), hex_char (nat (uchar c) mod 16)])"

definition url_encode :: "bytes \<Rightarrow> bytes" where
  "url_encode p = concat (map url_encode_byte p)"

lemma hex_digit_hex_char: "n < 16 \<Longrightarrow> hex_digit (hex_char n) = Some n"
  by (auto simp: hex_digit_def hex_char_def isdigit_def digit_val_def uchar_def)

lemma hex_char_range:
  "n < 16 \<Longrightarrow> (48 \<le> uchar (hex_char n) \<and> uchar (hex_char n) \<le> 57) \<or>
    (65 \<le> uchar (hex_char n) \<and> uchar (hex_char n) \<le> 70)"
  by (auto simp: hex_char_def uchar_def)

lemma url_encode_byte_decode:
  assumes "path_byte_ok c"
  shows "url_decode (url_encode_byte c @ s) = map_option (Cons c) (url_decode s)"
proof (cases "unreserved c")
  case True
  then have "c \<noteq> CHR ''%''" by (auto simp: unreserved_def isdigit_def uchar_def)
  with True assms show ?thesis by (simp add: url_encode_byte_def)
next
  case False
  let ?n = "nat (uchar c)"
  have n: "?n < 256" "char_of ?n = c" using uchar_bounds [of c] by (auto simp: uchar_def)
  then have "?n div 16 < 16" "?n mod 16 < 16" by auto
  with False assms n show ?thesis by (simp add: url_encode_byte_def hex_digit_hex_char)
qed

lemma url_decode_encode: "list_all path_byte_ok p \<Longrightarrow> url_decode (url_encode p) = Some p"
proof (induction p)
  case Nil
  show ?case by (simp add: url_encode_def)
next
  case (Cons c p)
  then show ?case using url_encode_byte_decode [of c "url_encode p"] by (simp add: url_encode_def)
qed

text \<open>Encoded paths contain no byte that means something in a request line.\<close>

lemma url_encode_safe: "c \<in> set (url_encode p) \<Longrightarrow> c \<notin> {SP, CHR ''?'', CR, LF, NUL}"
proof -
  assume "c \<in> set (url_encode p)"
  then obtain d where d: "c \<in> set (url_encode_byte d)" by (auto simp: url_encode_def)
  let ?n = "nat (uchar d)"
  have "?n div 16 < 16" "?n mod 16 < 16" using uchar_bounds [of d] by auto
  note hex_char_range [OF this(1)] hex_char_range [OF this(2)]
  moreover have "unreserved c \<or> c = CHR ''%'' \<or> c = hex_char (?n div 16) \<or> c = hex_char (?n mod 16)"
    using d by (auto simp: url_encode_byte_def split: if_splits)
  ultimately show ?thesis by (auto simp: unreserved_def isdigit_def uchar_def)
qed

lemma url_encode_slash: "hd p = CHR ''/'' \<Longrightarrow> p \<noteq> [] \<Longrightarrow> url_encode p \<noteq> [] \<and> hd (url_encode p) = CHR ''/''"
  by (cases p) (auto simp: url_encode_def url_encode_byte_def unreserved_def)

section \<open>Requests as a client writes them\<close>

definition render_header :: "http_header_t \<Rightarrow> bytes" where
  "render_header h = hdr_name h @ '': '' @ hdr_value h @ CRLF"

definition render_target :: "bytes \<Rightarrow> bytes \<Rightarrow> bytes" where
  "render_target p q = url_encode p @ (if q = [] then [] else CHR ''?'' # q)"

definition render_request :: "request_view \<Rightarrow> bytes" where
  "render_request w =
     v_method w @ [SP] @ render_target (v_path w) (v_query w) @ [SP] @ v_version w @ CRLF @
     concat (map render_header (v_headers w)) @ CRLF"

definition header_wf :: "server_config_t \<Rightarrow> http_header_t \<Rightarrow> bool" where
  "header_wf config h \<longleftrightarrow>
     hdr_name h \<noteq> [] \<and> list_all token_char (hdr_name h) \<and>
     length (hdr_name h) < http_header_name_max config \<and>
     list_all field_byte (hdr_value h) \<and> trim (hdr_value h) = hdr_value h \<and>
     length (hdr_value h) < http_header_value_max config"

definition view_wf :: "server_config_t \<Rightarrow> request_view \<Rightarrow> bool" where
  "view_wf config w \<longleftrightarrow>
     v_method w \<noteq> [] \<and> length (v_method w) < 16 \<and> list_all token_char (v_method w) \<and>
     v_path w \<noteq> [] \<and> hd (v_path w) = CHR ''/'' \<and> list_all path_byte_ok (v_path w) \<and>
     list_all (\<lambda>c. c \<notin> {SP, CR, NUL}) (v_query w) \<and>
     length (render_target (v_path w) (v_query w)) < 4096 \<and>
     (v_version w = ''HTTP/1.1'' \<or> v_version w = ''HTTP/1.0'') \<and>
     length (v_headers w) \<le> http_max_headers config \<and> list_all (header_wf config) (v_headers w)"

lemma tchar_not: "token_char c \<Longrightarrow> c \<noteq> CR \<and> c \<noteq> NUL \<and> c \<noteq> SP \<and> c \<noteq> CHR '':''"
  by (auto simp: token_char_def isdigit_def uchar_def)

lemma value_byte_not: "field_byte c \<Longrightarrow> c \<noteq> CR \<and> c \<noteq> NUL"
  by (auto simp: field_byte_def uchar_def)

lemma tchars_not: "list_all token_char s \<Longrightarrow> CR \<notin> set s \<and> NUL \<notin> set s \<and> SP \<notin> set s \<and> CHR '':'' \<notin> set s"
  by (auto simp: list_all_iff dest: tchar_not)

lemma value_bytes_not: "list_all field_byte s \<Longrightarrow> CR \<notin> set s \<and> NUL \<notin> set s"
  by (auto simp: list_all_iff dest: value_byte_not)

lemma url_encode_not: "x \<in> {SP, CHR ''?'', CR, LF, NUL} \<Longrightarrow> x \<notin> set (url_encode p)"
  using url_encode_safe by blast

lemma trim_SP: "trim (SP # v) = trim v"
  by (simp add: trim_def blank_def uchar_def)

lemma header_line_spec_render:
  assumes "header_wf config h"
  shows "header_line_spec config (hdr_name h @ '': '' @ hdr_value h) = Inr h"
proof -
  have "CHR '':'' \<notin> set (hdr_name h)" using assms by (simp add: header_wf_def tchars_not)
  then have "split_on CHR '':'' (hdr_name h @ CHR '':'' # SP # hdr_value h) =
      Some (hdr_name h, SP # hdr_value h)" by (rule split_on_append)
  then show ?thesis using assms by (cases h) (simp add: header_line_spec_def header_wf_def trim_SP)
qed

lemma headers_spec_render:
  assumes "list_all (header_wf config) hs" "n + length hs \<le> http_max_headers config"
  shows "headers_spec config (concat (map render_header hs) @ CRLF @ r) n = (HTTP_PARSE_OK, hs)"
  using assms
proof (induction hs arbitrary: n)
  case Nil
  show ?case by (simp add: headers_spec.simps)
next
  case (Cons h hs)
  let ?l = "hdr_name h @ '': '' @ hdr_value h"
    and ?r = "concat (map render_header hs) @ CRLF @ r"
  have wf: "header_wf config h" using Cons.prems by simp
  then have nm: "hdr_name h \<noteq> []" "CR \<notin> set ?l"
    by (simp_all add: header_wf_def tchars_not value_bytes_not)
  have s: "concat (map render_header (h # hs)) @ CRLF @ r = ?l @ CRLF @ ?r"
    by (simp add: render_header_def)
  have "crlf_split (?l @ CRLF @ ?r) = Some (?l, ?r)"
    using crlf_split_append [OF nm(2), of ?r] by simp
  moreover have "\<not> prefix CRLF (?l @ CRLF @ ?r)"
    using nm by (cases "hdr_name h") auto
  moreover have "headers_spec config ?r (Suc n) = (HTTP_PARSE_OK, hs)"
    using Cons by simp
  ultimately show ?case
    unfolding s using Cons.prems(2) header_line_spec_render [OF wf]
    by (subst headers_spec.simps) (simp del: append_assoc append.simps)
qed

lemma target_spec_render:
  assumes "p \<noteq> []" "hd p = CHR ''/''" "list_all path_byte_ok p"
  shows "target_spec (render_target p q) = Some (p, q)"
proof -
  have "CHR ''?'' \<notin> set (url_encode p)" by (simp add: url_encode_not)
  moreover from this have "split_on CHR ''?'' (url_encode p) = None" by (simp add: split_on_None)
  ultimately show ?thesis
    using assms url_encode_slash [OF assms(2,1)]
    by (simp add: target_spec_def render_target_def url_decode_encode)
qed

lemma request_line_render:
  assumes "view_wf config w"
  defines "l \<equiv> v_method w @ SP # render_target (v_path w) (v_query w) @ SP # v_version w"
  shows "CR \<notin> set l" and "NUL \<notin> set l"
    and "request_line_spec l =
      Some (v_method w, render_target (v_path w) (v_query w), v_version w)"
proof -
  let ?t = "render_target (v_path w) (v_query w)"
  have m: "CR \<notin> set (v_method w)" "NUL \<notin> set (v_method w)" "SP \<notin> set (v_method w)"
    using assms(1) by (simp_all add: view_wf_def tchars_not)
  have t: "CR \<notin> set ?t" "NUL \<notin> set ?t" "SP \<notin> set ?t"
    using assms(1) by (auto simp: view_wf_def list_all_iff render_target_def url_encode_not)
  have v: "CR \<notin> set (v_version w)" "NUL \<notin> set (v_version w)" "SP \<notin> set (v_version w)"
    "v_version w \<noteq> []" "length (v_version w) < 16"
    using assms(1) by (auto simp: view_wf_def)
  show "CR \<notin> set l" "NUL \<notin> set l" using m t v by (auto simp: l_def)
  have "?t \<noteq> []" using assms(1) url_encode_slash by (auto simp: view_wf_def render_target_def)
  then show "request_line_spec l = Some (v_method w, ?t, v_version w)"
    using assms(1) m t v by (auto simp: l_def request_line_spec_def view_wf_def)
qed

lemma request_spec_render:
  assumes "view_wf config w"
  shows "request_spec config (render_request w @ r) = Inr w"
proof -
  let ?l = "v_method w @ SP # render_target (v_path w) (v_query w) @ SP # v_version w"
    and ?r = "concat (map render_header (v_headers w)) @ CRLF @ r"
  note line = request_line_render [OF assms]
  have s: "render_request w @ r = ?l @ CR # LF # ?r" by (simp add: render_request_def)
  have "crlf_split (render_request w @ r) = Some (?l, ?r)"
    unfolding s using line(1) by (rule crlf_split_append)
  moreover have "headers_spec config ?r 0 = (HTTP_PARSE_OK, v_headers w)"
    using assms by (intro headers_spec_render) (auto simp: view_wf_def)
  moreover have "target_spec (render_target (v_path w) (v_query w)) = Some (v_path w, v_query w)"
    using assms by (intro target_spec_render) (auto simp: view_wf_def)
  ultimately show ?thesis
    using assms line(3) by (cases w) (auto simp: request_spec_def view_wf_def)
qed

lemma render_request_no_NUL:
  assumes "view_wf config w"
  shows "NUL \<notin> set (render_request w)"
proof -
  have "NUL \<notin> set (render_header h)" if "h \<in> set (v_headers w)" for h
    using that assms
    by (auto simp: view_wf_def list_all_iff [of "header_wf config"] header_wf_def render_header_def
        tchars_not value_bytes_not)
  then show ?thesis using request_line_render(2) [OF assms] by (auto simp: render_request_def)
qed

section \<open>What the parser accepts\<close>

lemma url_decode_ok: "url_decode s = Some d \<Longrightarrow> list_all path_byte_ok d \<and> length d \<le> length s"
  by (induction s arbitrary: d rule: url_decode.induct)
    (fastforce split: if_splits list.splits option.splits)+

lemma url_decode_slash: "url_decode (CHR ''/'' # s) = Some d \<Longrightarrow> d \<noteq> [] \<and> hd d = CHR ''/''"
  by (auto split: if_splits)

lemma target_spec_sound:
  assumes "target_spec t = Some (p, q)" "length t < 4096"
  shows "p \<noteq> []" "hd p = CHR ''/''" "list_all path_byte_ok p" "length p < 4096" "length q < 4096"
proof -
  obtain e where e: "hd e = CHR ''/''" "e \<noteq> []" "url_decode e = Some p" "length e \<le> length t"
    "length q \<le> length t"
    using assms by (auto simp: target_spec_def split_on_Some split: option.splits if_splits)
  from e(1,2) obtain e' where "e = CHR ''/'' # e'" by (cases e) auto
  with url_decode_slash [of e' p] e(3) show "p \<noteq> []" "hd p = CHR ''/''" by auto
  show "list_all path_byte_ok p" "length p < 4096" "length q < 4096"
    using url_decode_ok [OF e(3)] e assms(2) by auto
qed

text \<open>The accepted headers, line by line.\<close>

lemma headers_spec_sound:
  assumes "headers_spec config s n = (HTTP_PARSE_OK, hs)" "n \<le> http_max_headers config"
  shows "\<exists>ls r. s = concat (map (\<lambda>l. l @ CRLF) ls) @ CRLF @ r \<and>
    map (header_line_spec config) ls = map Inr hs \<and> n + length hs \<le> http_max_headers config"
  using assms
proof (induction config s n arbitrary: hs rule: headers_spec.induct)
  case (1 config s n)
  show ?case
  proof (cases "prefix CRLF s")
    case True
    with "1.prems" obtain r where "s = CRLF @ r" "hs = []"
      by (auto simp: prefix_def headers_spec.simps)
    then have "s = concat (map (\<lambda>l. l @ CRLF) []) @ CRLF @ r" by simp
    with \<open>hs = []\<close> "1.prems"(2) show ?thesis by fastforce
  next
    case False
    with "1.prems" obtain l r h hs' where lr: "crlf_split s = Some (l, r)"
      and n: "\<not> http_max_headers config \<le> n" and h: "header_line_spec config l = Inr h"
      and hs: "hs = h # hs'" "headers_spec config r (Suc n) = (HTTP_PARSE_OK, hs')"
      by (subst (asm) headers_spec.simps) (auto split: if_splits option.splits sum.splits prod.splits
          simp: header_line_spec_def)
    from "1.IH" [OF False n lr refl h hs(2)] n obtain ls r' where
      "r = concat (map (\<lambda>l. l @ CRLF) ls) @ CRLF @ r'"
      "map (header_line_spec config) ls = map Inr hs'"
      "Suc n + length hs' \<le> http_max_headers config" by auto
    with lr h hs(1) have "s = concat (map (\<lambda>l. l @ CRLF) (l # ls)) @ CRLF @ r'"
      "map (header_line_spec config) (l # ls) = map Inr hs" "n + length hs \<le> http_max_headers config"
      by (auto dest: crlf_split_SomeD)
    then show ?thesis by blast
  qed
qed

lemma header_line_spec_sound:
  assumes "header_line_spec config l = Inr h"
  shows "\<exists>v. l = hdr_name h @ CHR '':'' # v \<and> hdr_value h = trim v" "header_wf config h"
proof -
  from assms obtain nm v where nv: "split_on CHR '':'' l = Some (nm, v)"
    and h: "h = \<lparr>hdr_name = nm, hdr_value = trim v\<rparr>"
    and ok: "nm \<noteq> []" "list_all token_char nm" "length nm < http_header_name_max config"
      "list_all field_byte (trim v)" "length (trim v) < http_header_value_max config"
    by (auto simp: header_line_spec_def split: option.splits if_splits)
  from nv h show "\<exists>v. l = hdr_name h @ CHR '':'' # v \<and> hdr_value h = trim v"
    by (auto simp: split_on_Some)
  have "trim (trim v) = trim v"
  proof -
    let ?w = "rev (dropWhile blank v)"
    have "dropWhile blank (rev (dropWhile blank ?w)) = rev (dropWhile blank ?w)"
    proof (cases "dropWhile blank v")
      case Nil
      then show ?thesis by (simp only: rev.simps dropWhile.simps)
    next
      case (Cons c cs)
      then have c: "\<not> blank c" by (auto simp: dropWhile_eq_Cons_conv)
      then have "dropWhile blank (rev cs @ [c]) = dropWhile blank (rev cs) @ [c]"
        by (cases "list_all blank (rev cs)")
          (auto simp: dropWhile_append list_all_iff dropWhile_eq_Nil_conv)
      with Cons c show ?thesis by simp
    qed
    then show ?thesis by (simp add: trim_def dropWhile_idem)
  qed
  with ok h show "header_wf config h" by (simp add: header_wf_def)
qed

lemma request_line_spec_sound:
  "request_line_spec l = Some (m, t, v) \<Longrightarrow>
   l = m @ SP # t @ SP # v \<and> m \<noteq> [] \<and> list_all token_char m \<and> t \<noteq> [] \<and> length t < 4096"
  by (auto simp: request_line_spec_def split_on_Some split: option.splits if_splits)

text \<open>The syntax of an accepted message, with what the parser says about it.\<close>

definition request_grammar :: "server_config_t \<Rightarrow> bytes \<Rightarrow> request_view \<Rightarrow> bool" where
  "request_grammar config s w \<longleftrightarrow>
     (\<exists>t ls r.
        s = v_method w @ SP # t @ SP # v_version w @ CRLF @ concat (map (\<lambda>l. l @ CRLF) ls) @ CRLF @ r \<and>
        list_all2 (\<lambda>l h. \<exists>v. l = hdr_name h @ CHR '':'' # v \<and> hdr_value h = trim v) ls (v_headers w)) \<and>
     v_method w \<noteq> [] \<and> list_all token_char (v_method w) \<and>
     (v_version w = ''HTTP/1.1'' \<or> v_version w = ''HTTP/1.0'') \<and>
     v_path w \<noteq> [] \<and> hd (v_path w) = CHR ''/'' \<and> list_all path_byte_ok (v_path w) \<and>
     length (v_path w) < 4096 \<and> length (v_query w) < 4096 \<and>
     length (v_headers w) \<le> http_max_headers config \<and> list_all (header_wf config) (v_headers w)"

lemma header_lines_sound:
  "map (header_line_spec config) ls = map Inr hs \<Longrightarrow>
   list_all2 (\<lambda>l h. \<exists>v. l = hdr_name h @ CHR '':'' # v \<and> hdr_value h = trim v) ls hs \<and>
   list_all (header_wf config) hs"
  by (induction ls arbitrary: hs) (auto simp: Cons_eq_map_conv dest: header_line_spec_sound)

lemma request_spec_sound:
  assumes "request_spec config s = Inr w"
  shows "request_grammar config s w"
proof -
  from assms obtain l r m t v p q hs where lr: "crlf_split s = Some (l, r)"
    and line: "request_line_spec l = Some (m, t, v)" and ver: "v = ''HTTP/1.1'' \<or> v = ''HTTP/1.0''"
    and tgt: "target_spec t = Some (p, q)" and hs: "headers_spec config r 0 = (HTTP_PARSE_OK, hs)"
    and w: "w = \<lparr>v_method = m, v_path = p, v_query = q, v_version = v, v_headers = hs\<rparr>"
    by (auto simp: request_spec_def split: option.splits if_splits prod.splits)
  note l = request_line_spec_sound [OF line]
  obtain ls r' where r: "r = concat (map (\<lambda>l. l @ CRLF) ls) @ CRLF @ r'"
    and ls: "map (header_line_spec config) ls = map Inr hs" "length hs \<le> http_max_headers config"
    using headers_spec_sound [OF hs] by auto
  have s: "s = m @ SP # t @ SP # v @ CRLF @ concat (map (\<lambda>l. l @ CRLF) ls) @ CRLF @ r'"
    using crlf_split_SomeD [OF lr] l r by simp
  show ?thesis
    unfolding request_grammar_def w request_view.simps
    using s header_lines_sound [OF ls(1)] ls(2) l ver target_spec_sound [OF tgt] by blast
qed

section \<open>The end of a header block, by position\<close>

lemma header_end_spec_HEND: "\<exists>e. header_end_spec (x @ HEND) = Some e"
  by (induction x) (auto simp: HEND_def)

lemma header_end_spec_iff:
  "header_end_spec s = Some e \<longleftrightarrow>
     e \<le> length s \<and> suffix HEND (take e s) \<and> (\<forall>e' < e. \<not> suffix HEND (take e' s))"
proof -
  have found: "\<exists>e''. header_end_spec s = Some e'' \<and> e'' \<le> e'"
    if e': "suffix HEND (take e' s)" for e'
  proof -
    from e' obtain x where "take e' s = x @ HEND" by (auto simp: suffix_def)
    then obtain e'' where "header_end_spec (take e' s) = Some e''" using header_end_spec_HEND by metis
    with header_end_spec_append [of "take e' s" e'' "drop e' s"] header_end_spec_bounds
    show ?thesis by fastforce
  qed
  have ends: "suffix HEND (take e s)" "e \<le> length s" if "header_end_spec s = Some e" for e
    using header_end_spec_ends [OF that] header_end_spec_bounds [OF that] by (auto simp: suffix_def)
  show ?thesis
  proof
    assume "header_end_spec s = Some e"
    with ends found show "e \<le> length s \<and> suffix HEND (take e s) \<and> (\<forall>e' < e. \<not> suffix HEND (take e' s))"
      by fastforce
  next
    assume e: "e \<le> length s \<and> suffix HEND (take e s) \<and> (\<forall>e' < e. \<not> suffix HEND (take e' s))"
    with found [of e] obtain e'' where "header_end_spec s = Some e''" "e'' \<le> e" by blast
    with e ends(1) [of e''] show "header_end_spec s = Some e" by (cases "e'' = e") auto
  qed
qed

lemma header_end_spec_None: "header_end_spec s = None \<longleftrightarrow> \<not> sublist HEND s"
proof
  assume none: "header_end_spec s = None"
  show "\<not> sublist HEND s"
  proof
    assume "sublist HEND s"
    then obtain x y where s: "s = (x @ HEND) @ y" by (auto simp: sublist_def)
    obtain e where "header_end_spec (x @ HEND) = Some e" using header_end_spec_HEND by blast
    from header_end_spec_append [OF this, of y] none s show False by simp
  qed
next
  assume no: "\<not> sublist HEND s"
  show "header_end_spec s = None"
  proof (cases "header_end_spec s")
    case (Some e)
    from header_end_spec_ends [OF Some] obtain x where "take e s = x @ HEND" ..
    then have "s = x @ HEND @ drop e s" by (metis append_assoc append_take_drop_id)
    with no show ?thesis by (metis sublist_appendI)
  qed
qed

section \<open>Properties\<close>

definition example_view :: request_view where
  "example_view = \<lparr>v_method = ''GET'', v_path = ''/a b.txt'', v_query = ''x=1'', v_version = ''HTTP/1.1'',
     v_headers = [\<lparr>hdr_name = ''Host'', hdr_value = ''h''\<rparr>, \<lparr>hdr_name = ''X'', hdr_value = ''1 2''\<rparr>]\<rparr>"

definition blank_request :: http_request_t where
  "blank_request = \<lparr>rq_method = [], rq_path = [], rq_query = [], rq_version = [],
     rq_headers = replicate 64 \<lparr>hdr_name = [], hdr_value = []\<rparr>, rq_header_count = 0\<rparr>"

lemma blank_request_length [simp]: "length (rq_headers blank_request) = HTTP_MAX_HEADERS"
  by (simp add: blank_request_def http_limits)

lemma example_limits [simp]: "limits_ok example_config"
  by code_simp

lemma example_view_wf: "view_wf example_config example_view"
  by code_simp

text \<open>
  C5: On every NUL-terminated buffer \<open>http_parse_request\<close> returns without reading or writing out
  of bounds, whatever the uninitialised request holds and whatever follows the terminator; its
  code is the one of the grammar \<open>request_spec\<close>, and where it accepts, the request it stores is
  well formed and reads as the grammar says.
\<close>

theorem http_parse_request_correct:
  assumes "NUL \<notin> set s" "limits_ok config" "length (rq_headers rq) = HTTP_MAX_HEADERS"
  shows "\<exists>rq'. http_parse_request (Some (s @ NUL # j)) (Some rq) config =
      Some (case request_spec config s of Inl e \<Rightarrow> e | Inr w \<Rightarrow> HTTP_PARSE_OK, Some rq') \<and>
    (\<forall>w. request_spec config s = Inr w \<longrightarrow> request_wf rq' \<and> view rq' = w)"
  using http_parse_request_refines [OF assms, of j] by (auto split: sum.splits)

theorem http_parse_request_correct_witness:
  "\<exists>rq'. http_parse_request (Some (''GET /%41?q HTTP/1.0'' @ CRLF @ ''A:  b '' @ CRLF @ CRLF @ [NUL]))
      (Some blank_request) example_config = Some (HTTP_PARSE_OK, Some rq') \<and>
    view rq' = \<lparr>v_method = ''GET'', v_path = ''/A'', v_query = ''q'', v_version = ''HTTP/1.0'',
      v_headers = [\<lparr>hdr_name = ''A'', hdr_value = ''b''\<rparr>]\<rparr>"
proof -
  let ?s = "''GET /%41?q HTTP/1.0'' @ CRLF @ ''A:  b '' @ CRLF @ CRLF"
  have "request_spec example_config ?s = Inr \<lparr>v_method = ''GET'', v_path = ''/A'', v_query = ''q'',
      v_version = ''HTTP/1.0'', v_headers = [\<lparr>hdr_name = ''A'', hdr_value = ''b''\<rparr>]\<rparr>" by code_simp
  moreover have "NUL \<notin> set ?s" by code_simp
  ultimately show ?thesis
    using http_parse_request_correct [of ?s example_config blank_request "[]"] by auto
qed

text \<open>
  C7: Every request a client can write, with any percent-encoded path, query and headers within
  the limits, is parsed back to exactly that request: method, decoded path, query, version and
  headers in order.
\<close>

theorem http_parse_request_render:
  assumes "view_wf config w" "limits_ok config" "length (rq_headers rq) = HTTP_MAX_HEADERS"
  shows "\<exists>rq'. http_parse_request (Some (render_request w @ NUL # j)) (Some rq) config =
      Some (HTTP_PARSE_OK, Some rq') \<and> view rq' = w"
  using http_parse_request_refines [OF render_request_no_NUL [OF assms(1)] assms(2,3), of j]
    request_spec_render [OF assms(1), of "[]"] by auto

theorem http_parse_request_render_witness:
  "\<exists>rq'. http_parse_request (Some (render_request example_view @ [NUL])) (Some blank_request)
      example_config = Some (HTTP_PARSE_OK, Some rq') \<and> view rq' = example_view"
  by (rule http_parse_request_render) (simp_all add: example_view_wf)



text \<open>
  C30: Percent-encoding a path of printable bytes and decoding it with \<open>http_decode_path\<close> gives the
  path back, within a buffer that is one byte longer than the encoded text.
\<close>

theorem http_decode_path_encode:
  assumes "list_all path_byte_ok p" "length (url_encode p) < cap"
  shows "http_decode_path (url_encode p @ NUL # j) cap = Some (0, p)"
  using http_decode_path_refines [OF url_encode_not assms(2), of j] url_decode_encode [OF assms(1)]
  by simp

theorem http_decode_path_encode_witness:
  "http_decode_path (url_encode ''/a b%?'' @ [NUL]) 4096 = Some (0, ''/a b%?'')"
  by (rule http_decode_path_encode; code_simp)

text \<open>
  C18: \<open>http_find_header_end\<close> never reads outside the first \<open>len\<close> bytes. It answers the null
  pointer exactly when no empty line ends a header block there, and otherwise the position right
  behind the first such end.
\<close>

theorem http_find_header_end_first:
  assumes "len \<le> length b" "size_ok len"
  shows "\<exists>res. http_find_header_end b len = Some res \<and>
    (res = None \<longleftrightarrow> \<not> sublist HEND (take len b)) \<and>
    (\<forall>e. res = Some e \<longleftrightarrow>
       e \<le> len \<and> suffix HEND (take e b) \<and> (\<forall>e' < e. \<not> suffix HEND (take e' b)))"
proof -
  have "take e (take len b) = take e b" if "e \<le> len" for e using that by (simp add: min_absorb1)
  then have pos: "header_end_spec (take len b) = Some e \<longleftrightarrow>
      e \<le> len \<and> suffix HEND (take e b) \<and> (\<forall>e' < e. \<not> suffix HEND (take e' b))" for e
    using assms(1) by (auto simp: header_end_spec_iff)
  show ?thesis
    by (intro exI [of _ "header_end_spec (take len b)"] conjI allI
        http_find_header_end_eq [OF assms] header_end_spec_None pos)
qed

theorem http_find_header_end_first_witness:
  "\<exists>res. http_find_header_end (''ab'' @ HEND @ ''c'') 7 = Some res \<and>
    (res = None \<longleftrightarrow> \<not> sublist HEND (take 7 (''ab'' @ HEND @ ''c'')))"
  using http_find_header_end_first [of 7 "''ab'' @ HEND @ ''c''"] by (auto simp: size_ok_def)

end
