(* ===== verification/Mime.thy ===== *)
theory Mime
  imports C_Lib
begin

text \<open>\<open>src/mime.c\<close>: the content type of a path, from its last extension.\<close>

definition mime_type :: "bytes \<Rightarrow> bytes" where
  "mime_type path =
     (case strrchr path CHR ''.'' of
        None \<Rightarrow> ''application/octet-stream''
      | Some extension \<Rightarrow>
          if strcmp extension ''.html'' = 0 \<or> strcmp extension ''.htm'' = 0 then ''text/html''
          else if strcmp extension ''.css'' = 0 then ''text/css''
          else if strcmp extension ''.js'' = 0 then ''application/javascript''
          else if strcmp extension ''.json'' = 0 then ''application/json''
          else if strcmp extension ''.png'' = 0 then ''image/png''
          else if strcmp extension ''.jpg'' = 0 \<or> strcmp extension ''.jpeg'' = 0 then ''image/jpeg''
          else if strcmp extension ''.gif'' = 0 then ''image/gif''
          else if strcmp extension ''.svg'' = 0 then ''image/svg+xml''
          else if strcmp extension ''.txt'' = 0 then ''text/plain''
          else ''application/octet-stream'')"

text \<open>The table the code implements, extensions without their dot.\<close>

definition mime_table :: "(bytes \<times> bytes) list" where
  "mime_table =
     [(''html'', ''text/html''), (''htm'', ''text/html''), (''css'', ''text/css''),
      (''js'', ''application/javascript''), (''json'', ''application/json''),
      (''png'', ''image/png''), (''jpg'', ''image/jpeg''), (''jpeg'', ''image/jpeg''),
      (''gif'', ''image/gif''), (''svg'', ''image/svg+xml''), (''txt'', ''text/plain'')]"

lemma mime_type_length: "length (mime_type path) < 800"
  by (auto simp: mime_type_def split: option.splits)

text \<open>No content type breaks a header line.\<close>

lemma mime_type_no_CR: "CR \<notin> set (mime_type path)"
  by (auto simp: mime_type_def split: option.splits)

section \<open>Properties\<close>

text \<open>
  C37: \<open>mime_type\<close> looks only at what follows the last dot of the path, in the table of the
  supported extensions; every other extension, and a path without a dot, is
  \<open>application/octet-stream\<close>.
\<close>

theorem mime_type_correct:
  "(CHR ''.'' \<notin> set ext \<longrightarrow> mime_type (p @ CHR ''.'' # ext) =
      (case map_of mime_table ext of Some t \<Rightarrow> t | None \<Rightarrow> ''application/octet-stream'')) \<and>
   (CHR ''.'' \<notin> set p \<longrightarrow> mime_type p = ''application/octet-stream'')"
proof -
  have "strrchr (p @ CHR ''.'' # ext) CHR ''.'' = Some (CHR ''.'' # ext)" if "CHR ''.'' \<notin> set ext"
    using that by (auto simp: strrchr_Some)
  then show ?thesis by (simp add: mime_type_def mime_table_def strrchr_None [THEN iffD2])
qed

theorem mime_type_correct_witness:
  "mime_type (''/a.b/index'' @ CHR ''.'' # ''html'') = ''text/html'' \<and>
   mime_type ''/'' = ''application/octet-stream''"
  using mime_type_correct [of "''html''" "''/a.b/index''"] mime_type_correct [of "[]" "''/''"]
  by (simp add: mime_table_def)

end
