(* ===== verification/Http.thy ===== *)
theory Http
  imports Http_Connection Http_Roundtrip File_Open Mime
begin

text \<open>
  \<open>src/http.c\<close>: validation of requests, the preparation of the response to one request, and the
  loop that answers the requests in the buffer of a connection. What the code prints to
  \<open>stdout\<close> and \<open>stderr\<close> is not modelled.
\<close>

section \<open>Validation\<close>

definition http_config_valid :: "server_config_t option \<Rightarrow> bool" where
  "http_config_valid config =
     (case config of
        None \<Rightarrow> False
      | Some cfg \<Rightarrow>
          if http_buffer_size cfg = 0 then False
          else if http_max_headers cfg = 0 \<or> http_max_headers cfg > HTTP_MAX_HEADERS then False
          else if http_header_name_max cfg = 0 \<or> http_header_name_max cfg > HTTP_HEADER_NAME_MAX
          then False
          else if http_header_value_max cfg = 0 \<or> http_header_value_max cfg > HTTP_HEADER_VALUE_MAX
          then False
          else True)"

definition http_method_allowed :: "bytes \<Rightarrow> bool" where
  "http_method_allowed meth \<longleftrightarrow> strcmp meth ''GET'' = 0 \<or> strcmp meth ''HEAD'' = 0"

function http_host_count_loop :: "http_request_t \<Rightarrow> nat \<Rightarrow> nat \<Rightarrow> nat option" where
  "http_host_count_loop request i host_count =
     (if i < rq_header_count request then
        (if i < length (rq_headers request) then
           http_host_count_loop request (i + 1)
             (if strcasecmp (hdr_name (rq_headers request ! i)) ''Host'' = 0
              then host_count + 1 else host_count)
         else None)
      else Some host_count)"
  by pat_completeness auto
termination
  by (relation "measure (\<lambda>(request, i, host_count). rq_header_count request - i)") auto

declare http_host_count_loop.simps [simp del]

definition http_validate_host :: "http_request_t \<Rightarrow> int option" where
  "http_validate_host request =
     do {
       host_count \<leftarrow> http_host_count_loop request 0 0;
       Some (if host_count = 1 then 0 else -1)
     }"

text \<open>
  The first loop of \<open>http_validate_request_framing\<close>: \<open>Inl\<close> is the return from inside the loop
  with its reason, \<open>Inr\<close> the \<open>Content-Length\<close> value found and whether a \<open>Transfer-Encoding\<close>
  header is present.
\<close>

function http_framing_loop ::
    "http_request_t \<Rightarrow> nat \<Rightarrow> bytes option \<Rightarrow> nat \<Rightarrow> bool \<Rightarrow> (bytes + bytes option \<times> bool) option" where
  "http_framing_loop request i content_length content_length_count te_present =
     (if i < rq_header_count request then
        (if i < length (rq_headers request) then
           (let header = rq_headers request ! i;
                is_cl = (strcasecmp (hdr_name header) ''Content-Length'' = 0);
                cl_count = (if is_cl then content_length_count + 1 else content_length_count)
            in if is_cl \<and> cl_count > 1
               then Some (Inl ''Duplicate Content-Length headers are not supported'')
               else http_framing_loop request (i + 1)
                      (if is_cl then Some (hdr_value header) else content_length)
                      cl_count
                      (te_present \<or> strcasecmp (hdr_name header) ''Transfer-Encoding'' = 0))
         else None)
      else Some (Inr (content_length, te_present)))"
  by pat_completeness auto
termination
  by (relation "measure (\<lambda>(request, i, cl, n, te). rq_header_count request - i)") auto

declare http_framing_loop.simps [simp del]

text \<open>The loop over the digits; \<open>None\<close> is the return with \<open>Invalid Content-Length\<close>.\<close>

fun http_framing_digits :: "bytes \<Rightarrow> 64 word \<Rightarrow> 64 word option" where
  "http_framing_digits [] len = Some len"
| "http_framing_digits (p # ps) len =
     (if schar p < schar CHR ''0'' \<or> schar p > schar CHR ''9'' then None
      else
        (let digit = (word_of_int (schar p - schar CHR ''0'') :: 64 word)
         in if len > (- 1 - digit) div 10 then None
            else http_framing_digits ps (len * 10 + digit)))"

definition http_validate_request_framing :: "http_request_t \<Rightarrow> (int \<times> bytes option) option" where
  "http_validate_request_framing request =
     do {
       scan \<leftarrow> http_framing_loop request 0 None 0 False;
       (case scan of
          Inl reason \<Rightarrow> Some (-1, Some reason)
        | Inr (content_length, te_present) \<Rightarrow>
            if te_present then Some (-1, Some ''Transfer-Encoding is not supported'')
            else
              (case content_length of
                 None \<Rightarrow> Some (0, None)
               | Some cl \<Rightarrow>
                   if cl = [] then Some (-1, Some ''Invalid Content-Length'')
                   else
                     do {
                       n \<leftarrow> http_trim_ows cl 0 (length cl);
                       (if n = 0 then Some (-1, Some ''Invalid Content-Length'')
                        else
                          (case http_framing_digits (take n cl) 0 of
                             None \<Rightarrow> Some (-1, Some ''Invalid Content-Length'')
                           | Some len \<Rightarrow>
                               if len = 0 then Some (0, None)
                               else Some (-1, Some ''Request bodies are not supported'')))
                     }))
     }"

section \<open>The response to one request\<close>

text \<open>The status for the \<open>errno\<close> of a failed \<open>file_open_path\<close>.\<close>

definition http_open_error_status :: "errno \<Rightarrow> http_status_t" where
  "http_open_error_status e =
     (if e = ENOENT then HTTP_STATUS_NOT_FOUND
      else if e = EACCES \<or> e = EPERM then HTTP_STATUS_FORBIDDEN
      else HTTP_STATUS_INTERNAL_SERVER_ERROR)"

type_synonym prepared = "int \<times> http_response_t option \<times> bool option \<times> trace"

text \<open>A return with an error response, which always closes the connection.\<close>

definition http_prepare_failure ::
    "kernel \<Rightarrow> http_response_t \<Rightarrow> http_status_t \<Rightarrow> bytes option \<Rightarrow> trace \<Rightarrow> prepared option" where
  "http_prepare_failure k response status message tr =
     do {
       (c, r, tr') \<leftarrow> http_response_prepare_error k (Some response) status message tr;
       Some (c, r, Some True, tr')
     }"

text \<open>From \<open>file_open_path\<close> to the end: the response for the file of a valid request.\<close>

definition http_prepare_file ::
    "kernel \<Rightarrow> http_request_t \<Rightarrow> http_response_t \<Rightarrow> bool \<Rightarrow> int \<Rightarrow> trace \<Rightarrow> prepared option" where
  "http_prepare_file k request response close_connection root_fd tr =
     (case file_open_path k root_fd (rq_path request) tr of
        (Inl e, tr1) \<Rightarrow> http_prepare_failure k response (http_open_error_status e) None tr1
      | (Inr file, tr1) \<Rightarrow>
          (let content_type = mime_type (rq_path request);
               send_body = (strcmp (rq_method request) ''HEAD'' \<noteq> 0)
           in do {
                (headers_length, hbuf) \<leftarrow>
                  http_build_response_headers (Some (rs_headers response)) HTTP_RESPONSE_HEADER_MAX
                    HTTP_STATUS_OK (Some content_type) (f_size file) (\<not> close_connection);
                hs \<leftarrow> hbuf;
                (if headers_length < 0
                 then Some (-1, Some (response\<lparr>rs_headers := hs\<rparr>), Some close_connection,
                        close_fd k (f_fd file) tr1)
                 else Some (0, Some (response\<lparr>
                        rs_headers := hs, rs_headers_length := nat headers_length,
                        rs_headers_sent := 0,
                        rs_file_fd := f_fd file, rs_file_size := f_size file,
                        rs_file_offset := 0,
                        rs_body := None, rs_body_length := 0, rs_body_sent := 0,
                        rs_send_body := send_body, rs_complete := False\<rparr>),
                      Some close_connection, tr1))
              }))"

text \<open>The checks between parsing and opening the file.\<close>

definition http_prepare_checked ::
    "kernel \<Rightarrow> http_request_t \<Rightarrow> http_response_t \<Rightarrow> bool \<Rightarrow> int \<Rightarrow> trace \<Rightarrow> prepared option" where
  "http_prepare_checked k request response close_connection root_fd tr =
     (if \<not> http_method_allowed (rq_method request)
      then http_prepare_failure k response HTTP_STATUS_METHOD_NOT_ALLOWED None tr
      else
        do {
          host \<leftarrow> (if strcmp (rq_version request) ''HTTP/1.1'' = 0
                    then http_validate_host request else Some 0);
          (if host < 0 then http_prepare_failure k response HTTP_STATUS_BAD_REQUEST None tr
           else
             do {
               (framing, framing_error) \<leftarrow> http_validate_request_framing request;
               if framing < 0
               then http_prepare_failure k response HTTP_STATUS_BAD_REQUEST framing_error tr
               else
                 (let close1 = (close_connection \<or> strcmp (rq_version request) ''HTTP/1.0'' = 0)
                  in do {
                       connection \<leftarrow> http_get_header request ''Connection'';
                       (let close2 = (close1 \<or>
                              (case connection of
                                 None \<Rightarrow> False
                               | Some v \<Rightarrow> strcasecmp v ''close'' = 0))
                        in http_prepare_file k request response close2 root_fd tr)
                     })
             })
        })"

text \<open>
  The struct \<open>request\<close> on the stack of \<open>http_prepare_response\<close> is not initialised; its contents
  are the parameter \<open>request0\<close>.
\<close>

definition http_prepare_response ::
    "kernel \<Rightarrow> http_request_t \<Rightarrow> bytes option \<Rightarrow> nat \<Rightarrow> http_response_t option \<Rightarrow> bool option \<Rightarrow>
     int \<Rightarrow> server_config_t option \<Rightarrow> trace \<Rightarrow> prepared option" where
  "http_prepare_response k request0 buffer len response close_connection root_fd config tr =
     (case (buffer, response, close_connection, config) of
        (Some b, Some r, Some cc, Some cfg) \<Rightarrow>
          if \<not> http_config_valid config then Some (-1, response, close_connection, tr)
          else
            (case malloc k (size_add len 1) tr of
               (None, tr1) \<Rightarrow> Some (-1, http_response_init response, Some True, tr1)
             | (Some m, tr1) \<Rightarrow>
                 do {
                   r0 \<leftarrow> http_response_init (Some r);
                   bs \<leftarrow> rd_bytes b 0 len;
                   m1 \<leftarrow> blit m 0 bs;
                   m2 \<leftarrow> blit m1 len [NUL];
                   (parse_result, rq) \<leftarrow> http_parse_request (Some m2) (Some request0) cfg;
                   request \<leftarrow> rq;
                   (if parse_result \<noteq> HTTP_PARSE_OK then
                      (if parse_result = HTTP_PARSE_HEADERS_TOO_LARGE
                       then http_prepare_failure k r0
                              HTTP_STATUS_REQUEST_HEADER_FIELDS_TOO_LARGE None tr1
                       else http_prepare_failure k r0 HTTP_STATUS_BAD_REQUEST None tr1)
                    else http_prepare_checked k request r0 cc root_fd tr1)
                 })
      | _ \<Rightarrow> Some (-1, response, close_connection, tr))"

section \<open>The requests of a connection\<close>

text \<open>
  Every turn of the loop finds the uninitialised request struct as the events so far left it:
  \<open>request0\<close> is a function of the trace.
\<close>

partial_function (option) http_process_loop ::
    "kernel \<Rightarrow> (trace \<Rightarrow> http_request_t) \<Rightarrow> http_connection_t \<Rightarrow> int \<Rightarrow> int \<Rightarrow> server_config_t \<Rightarrow> trace \<Rightarrow>
     (int \<times> http_connection_t \<times> trace) option" where
  [code]: "http_process_loop k request0 connection client_fd root_fd config tr =
     do {
       ready \<leftarrow> http_connection_request_ready (Some connection);
       if \<not> ready then Some (0, connection, tr)
       else
         do {
           request_length \<leftarrow> http_connection_request_length (Some connection);
           if request_length = 0 then Some (-1, connection, tr)
           else
             do {
               (c, ropt, cc, tr1) \<leftarrow> http_prepare_response k (request0 tr)
                  (http_connection_data (Some connection)) request_length
                  (Some (cn_response connection)) (Some (cn_close_connection connection))
                  root_fd (Some config) tr;
               r \<leftarrow> ropt;
               close1 \<leftarrow> cc;
               (let conn1 = connection\<lparr>cn_response := r, cn_close_connection := close1\<rparr>
                in if c < 0 then Some (-1, conn1, tr1)
                   else
                     do {
                       (s, sopt, tr2) \<leftarrow> http_response_send_blocking k client_fd (Some r) tr1;
                       r2 \<leftarrow> sopt;
                       (if s < 0 then Some (-1, conn1\<lparr>cn_response := r2\<rparr>, tr2)
                        else
                          (case http_response_destroy k (Some r2) tr2 of
                             (dopt, tr3) \<Rightarrow>
                               do {
                                 r3 \<leftarrow> dopt;
                                 copt \<leftarrow> http_connection_consume
                                           (Some (conn1\<lparr>cn_response := r3\<rparr>)) request_length;
                                 conn2 \<leftarrow> copt;
                                 (if cn_close_connection conn2 then Some (0, conn2, tr3)
                                  else http_process_loop k request0 conn2 client_fd root_fd config tr3)
                               }))
                     })
             }
         }
     }"

definition http_process_connection ::
    "kernel \<Rightarrow> (trace \<Rightarrow> http_request_t) \<Rightarrow> http_connection_t option \<Rightarrow> int \<Rightarrow> int \<Rightarrow> server_config_t option \<Rightarrow>
     trace \<Rightarrow> (int \<times> http_connection_t option \<times> trace) option" where
  "http_process_connection k request0 connection client_fd root_fd config tr =
     (case (connection, config) of
        (Some c, Some cfg) \<Rightarrow>
          if \<not> http_config_valid config then Some (-1, connection, tr)
          else
            do {
              (r, c', tr') \<leftarrow> http_process_loop k request0 c client_fd root_fd cfg tr;
              Some (r, Some c', tr')
            }
      | _ \<Rightarrow> Some (-1, connection, tr))"

end
