(* ===== verification/Http_Correct.thy ===== *)
theory Http_Correct
  imports Http
begin

text \<open>
  Correctness of \<open>http.c\<close>: the scans over the header table compute what the list of headers says,
  one request is answered as the specification \<open>decide\<close> demands, and the connection loop ends,
  keeps its invariant and balances its descriptors.
\<close>

section \<open>The header table\<close>

definition named :: "bytes \<Rightarrow> http_header_t \<Rightarrow> bool" where
  "named nm h \<longleftrightarrow> map tolower (hdr_name h) = map tolower nm"

lemma strcasecmp_named: "strcasecmp (hdr_name h) nm = 0 \<longleftrightarrow> named nm h"
  by (simp add: strcasecmp_eq_0 named_def)

text \<open>Stepping through the used slots of a well-formed table.\<close>

lemma active_drop:
  assumes "request_wf rq" "i < rq_header_count rq"
  shows "i < length (rq_headers rq)"
    and "drop i (active_headers rq) = rq_headers rq ! i # drop (i + 1) (active_headers rq)"
proof -
  show "i < length (rq_headers rq)" using assms by (simp add: request_wf_def)
  have "i < length (active_headers rq)" using assms by simp
  then have "drop i (active_headers rq) = active_headers rq ! i # drop (Suc i) (active_headers rq)"
    by (rule Cons_nth_drop_Suc [symmetric])
  then show "drop i (active_headers rq) = rq_headers rq ! i # drop (i + 1) (active_headers rq)"
    using assms(2) by (simp add: active_headers_def)
qed

text \<open>
  The three functions that walk over the table (\<open>http_get_header\<close>, \<open>http_validate_host\<close> and
  \<open>http_validate_request_framing\<close>) have one shape: a state, a step per header that may leave the
  loop, and a result at the end. The locale relates such a loop to a scan of the header list.
\<close>

fun scan :: "('h \<Rightarrow> 's \<Rightarrow> 'r + 's) \<Rightarrow> ('s \<Rightarrow> 'r) \<Rightarrow> 'h list \<Rightarrow> 's \<Rightarrow> 'r" where
  "scan step fin [] s = fin s"
| "scan step fin (h # hs) s = (case step h s of Inl r \<Rightarrow> r | Inr s' \<Rightarrow> scan step fin hs s')"

locale table_scan =
  fixes rq :: http_request_t
    and step :: "http_header_t \<Rightarrow> 's \<Rightarrow> 'r + 's"
    and fin :: "'s \<Rightarrow> 'r"
    and loop :: "nat \<Rightarrow> 's \<Rightarrow> 'r option"
  assumes loop_unfold:
    "loop i s =
       (if i < rq_header_count rq then
          (if i < length (rq_headers rq) then
             (case step (rq_headers rq ! i) s of Inl r \<Rightarrow> Some r | Inr s' \<Rightarrow> loop (i + 1) s')
           else None)
        else Some (fin s))"
begin

lemma scans:
  assumes "request_wf rq"
  shows "loop i s = Some (scan step fin (drop i (active_headers rq)) s)"
proof (induction "rq_header_count rq - i" arbitrary: i s)
  case 0
  with assms show ?case by (subst loop_unfold) simp
next
  case (Suc n)
  then have i: "i < rq_header_count rq" by simp
  note at = active_drop [OF assms i]
  have "loop (i + 1) t = Some (scan step fin (drop (i + 1) (active_headers rq)) t)" for t
    using Suc by (intro Suc.hyps(1)) simp
  with i at show ?case by (subst loop_unfold) (simp split: sum.splits)
qed

end

definition get_header_step ::
    "bytes \<Rightarrow> http_header_t \<Rightarrow> unit \<Rightarrow> bytes option + unit" where
  "get_header_step nm h s = (if named nm h then Inl (Some (hdr_value h)) else Inr ())"

interpretation get_header_scan: table_scan rq "get_header_step nm" "\<lambda>_. None"
  "\<lambda>i _. http_get_header_loop rq nm i" for rq nm
  by unfold_locales
    (subst http_get_header_loop.simps, simp add: get_header_step_def strcasecmp_named)

definition host_step :: "http_header_t \<Rightarrow> nat \<Rightarrow> nat + nat" where
  "host_step h n = Inr (if named ''Host'' h then n + 1 else n)"

interpretation host_scan: table_scan rq host_step "\<lambda>n. n" "http_host_count_loop rq" for rq
  by unfold_locales
    (subst http_host_count_loop.simps, simp add: host_step_def strcasecmp_named)

type_synonym framing_state = "bytes option \<times> nat \<times> bool"

definition framing_step ::
    "http_header_t \<Rightarrow> framing_state \<Rightarrow> (bytes + bytes option \<times> bool) + framing_state" where
  "framing_step h s =
     (case s of (cl, n, te) \<Rightarrow>
        if named ''Content-Length'' h \<and> n > 0
        then Inl (Inl ''Duplicate Content-Length headers are not supported'')
        else Inr (if named ''Content-Length'' h then Some (hdr_value h) else cl,
                  if named ''Content-Length'' h then n + 1 else n,
                  te \<or> named ''Transfer-Encoding'' h))"

interpretation framing_scan: table_scan rq framing_step "\<lambda>(cl, n, te). Inr (cl, te)"
  "\<lambda>i (cl, n, te). http_framing_loop rq i cl n te" for rq
proof
  fix i :: nat and s :: framing_state
  obtain cl n te where s: "s = (cl, n, te)" by (cases s)
  show "(case s of (cl, n, te) \<Rightarrow> http_framing_loop rq i cl n te) =
    (if i < rq_header_count rq then
       (if i < length (rq_headers rq) then
          (case framing_step (rq_headers rq ! i) s of
             Inl r \<Rightarrow> Some r
           | Inr s' \<Rightarrow> (case s' of (cl, n, te) \<Rightarrow> http_framing_loop rq (i + 1) cl n te))
        else None)
     else Some (case s of (cl, n, te) \<Rightarrow> Inr (cl, te)))"
    by (simp only: s prod.case, subst http_framing_loop.simps)
      (simp add: framing_step_def strcasecmp_named Let_def)
qed

lemma scan_get_header:
  "scan (get_header_step nm) (\<lambda>_. None) hs () = map_option hdr_value (find (named nm) hs)"
  by (induction hs) (auto simp: get_header_step_def)

lemma http_get_header_eq:
  "request_wf rq \<Longrightarrow>
   http_get_header rq nm = Some (map_option hdr_value (find (named nm) (active_headers rq)))"
  using get_header_scan.scans [of rq nm 0 "()"] by (simp add: http_get_header_def scan_get_header)

lemma scan_host: "scan host_step (\<lambda>n. n) hs n = n + length (filter (named ''Host'') hs)"
  by (induction hs arbitrary: n) (auto simp: host_step_def)

lemma http_validate_host_eq:
  "request_wf rq \<Longrightarrow>
   http_validate_host rq =
     Some (if length (filter (named ''Host'') (active_headers rq)) = 1 then 0 else -1)"
  using host_scan.scans [of rq 0 0] by (simp add: http_validate_host_def scan_host)

section \<open>Content-Length\<close>

lemma schar_0_9 [simp]: "schar CHR ''0'' = 48" "schar CHR ''9'' = 57"
  by (simp_all add: schar_def uchar_def)

lemma framing_digit:
  "(schar p < schar CHR ''0'' \<or> schar p > schar CHR ''9'') \<longleftrightarrow> \<not> isdigit p"
  using uchar_bounds [of p] by (auto simp: schar_def [of p] isdigit_def)

lemma framing_digit_val:
  assumes "isdigit p"
  shows "(word_of_int (schar p - schar CHR ''0'') :: 64 word) = word_of_nat (digit_val p)"
    and "digit_val p < 10"
  using assms by (auto simp: schar_def [of p] isdigit_def digit_val_def of_nat_nat)

lemma http_framing_digits_step:
  "http_framing_digits (p # ps) len =
     (if isdigit p then
        (if len > (- 1 - word_of_nat (digit_val p)) div 10 then None
         else http_framing_digits ps (len * 10 + word_of_nat (digit_val p)))
      else None)"
proof (cases "isdigit p")
  case True
  show ?thesis
    unfolding http_framing_digits.simps framing_digit framing_digit_val(1) [OF True] Let_def
    using True by simp
next
  case False
  then show ?thesis unfolding http_framing_digits.simps framing_digit by simp
qed

lemma foldl_digits_mono: "a \<le> foldl (\<lambda>a c. 10 * a + digit_val c) a xs"
proof (induction xs arbitrary: a)
  case Nil
  then show ?case by simp
next
  case (Cons c xs)
  have "a \<le> 10 * a + digit_val c" by simp
  also have "\<dots> \<le> foldl (\<lambda>a c. 10 * a + digit_val c) (10 * a + digit_val c) xs" by (rule Cons.IH)
  finally show ?case by simp
qed

text \<open>The overflow test of the loop is exact.\<close>

lemma framing_overflow:
  assumes "n < 2 ^ 64" "d < 10"
  shows "(word_of_nat n :: 64 word) > (- 1 - word_of_nat d) div 10 \<longleftrightarrow> 2 ^ 64 \<le> 10 * n + d"
proof -
  have d: "unat (- 1 - word_of_nat d :: 64 word) = 2 ^ 64 - 1 - d"
    using assms(2) by (simp add: unat_sub_if' unat_of_nat unsigned_minus_1_eq_mask mask_eq_exp_minus_1)
  have "unat ((- 1 - word_of_nat d :: 64 word) div 10) = (2 ^ 64 - 1 - d) div 10"
    by (simp add: unat_div d)
  moreover have "unat (word_of_nat n :: 64 word) = n" using assms(1) by (simp add: unat_of_nat)
  ultimately show ?thesis using assms(2) by (auto simp: word_less_nat_alt)
qed

lemma http_framing_digits_acc:
  assumes "n < 2 ^ 64"
  shows "http_framing_digits ds (word_of_nat n) =
    (if list_all isdigit ds \<and> foldl (\<lambda>a c. 10 * a + digit_val c) n ds < 2 ^ 64
     then Some (word_of_nat (foldl (\<lambda>a c. 10 * a + digit_val c) n ds)) else None)"
  using assms
proof (induction ds arbitrary: n)
  case Nil
  then show ?case by simp
next
  case (Cons p ps)
  let ?m = "10 * n + digit_val p"
  show ?case
  proof (cases "isdigit p")
    case False
    then show ?thesis unfolding http_framing_digits_step by simp
  next
    case True
    note over = framing_overflow [OF Cons.prems framing_digit_val(2) [OF True]]
    have acc: "(word_of_nat n * 10 + word_of_nat (digit_val p) :: 64 word) = word_of_nat ?m" by simp
    show ?thesis
    proof (cases "2 ^ 64 \<le> ?m")
      case big: True
      then have "\<not> foldl (\<lambda>a c. 10 * a + digit_val c) ?m ps < 2 ^ 64"
        using foldl_digits_mono [of ?m ps] by linarith
      with big True over show ?thesis unfolding http_framing_digits_step by simp
    next
      case False
      with Cons.IH [of ?m] True over show ?thesis
        unfolding http_framing_digits_step acc by simp
    qed
  qed
qed

lemma http_framing_digits_eq:
  "http_framing_digits ds 0 =
     (if list_all isdigit ds \<and> dec_val ds < 2 ^ 64 then Some (word_of_nat (dec_val ds)) else None)"
  using http_framing_digits_acc [of 0 ds] by (simp add: dec_val_def)

section \<open>Request framing\<close>

definition rtrim :: "bytes \<Rightarrow> bytes" where
  "rtrim v = rev (dropWhile blank (rev v))"

lemma take_rtrim: "take (length (dropWhile blank (rev v))) v = rtrim v"
proof -
  have "v = rtrim v @ rev (takeWhile blank (rev v))"
    unfolding rtrim_def by (metis rev_append rev_rev_ident takeWhile_dropWhile_id)
  moreover have "length (rtrim v) = length (dropWhile blank (rev v))" by (simp add: rtrim_def)
  ultimately show ?thesis by (metis append_eq_conv_conj)
qed

text \<open>The framing rule: \<open>None\<close> accepts the headers, \<open>Some\<close> is the reason to refuse them.\<close>

definition framing_spec :: "http_header_t list \<Rightarrow> bytes option" where
  "framing_spec hs =
     (let cls = filter (named ''Content-Length'') hs
      in if length cls > 1 then Some ''Duplicate Content-Length headers are not supported''
         else if list_ex (named ''Transfer-Encoding'') hs
         then Some ''Transfer-Encoding is not supported''
         else
           (case cls of
              [] \<Rightarrow> None
            | h # _ \<Rightarrow>
                (let v = rtrim (hdr_value h)
                 in if v = [] \<or> \<not> list_all isdigit v \<or> 2 ^ 64 \<le> dec_val v
                    then Some ''Invalid Content-Length''
                    else if dec_val v = 0 then None
                    else Some ''Request bodies are not supported'')))"

lemma framing_step_eq:
  "framing_step h (cl, n, te) =
     (if named ''Content-Length'' h \<and> n > 0
      then Inl (Inl ''Duplicate Content-Length headers are not supported'')
      else Inr (if named ''Content-Length'' h then Some (hdr_value h) else cl,
                if named ''Content-Length'' h then n + 1 else n,
                te \<or> named ''Transfer-Encoding'' h))"
  by (simp add: framing_step_def)

lemma scan_framing_dup:
  "0 < n \<Longrightarrow> scan framing_step (\<lambda>(cl, n, te). Inr (cl, te)) hs (cl, n, te) =
     (if filter (named ''Content-Length'') hs \<noteq> []
      then Inl ''Duplicate Content-Length headers are not supported''
      else Inr (cl, te \<or> list_ex (named ''Transfer-Encoding'') hs))"
  by (induction hs arbitrary: te) (auto simp: framing_step_eq)

lemma scan_framing:
  "scan framing_step (\<lambda>(cl, n, te). Inr (cl, te)) hs (cl, 0, te) =
     (case filter (named ''Content-Length'') hs of
        [] \<Rightarrow> Inr (cl, te \<or> list_ex (named ''Transfer-Encoding'') hs)
      | [h] \<Rightarrow> Inr (Some (hdr_value h), te \<or> list_ex (named ''Transfer-Encoding'') hs)
      | _ \<Rightarrow> Inl ''Duplicate Content-Length headers are not supported'')"
proof (induction hs arbitrary: te)
  case Nil
  then show ?case by simp
next
  case (Cons h hs)
  show ?case
  proof (cases "named ''Content-Length'' h")
    case True
    then show ?thesis
      by (simp add: framing_step_eq scan_framing_dup split: list.splits)
  next
    case False
    with Cons show ?thesis by (simp add: framing_step_eq split: list.splits)
  qed
qed

lemma http_validate_request_framing_eq:
  assumes "request_wf rq"
  shows "http_validate_request_framing rq =
    Some (case framing_spec (active_headers rq) of None \<Rightarrow> (0, None) | Some m \<Rightarrow> (-1, Some m))"
proof -
  let ?cls = "filter (named ''Content-Length'') (active_headers rq)"
  have loop: "http_framing_loop rq 0 None 0 False =
      Some (scan framing_step (\<lambda>(cl, n, te). Inr (cl, te)) (active_headers rq) (None, 0, False))"
    using framing_scan.scans [OF assms, of 0 "(None, 0, False)"] by simp
  have trim: "http_trim_ows v 0 (length v) = Some (length (dropWhile blank (rev v)))" for v
    using http_trim_ows_eq [of "[]" v "[]"] by simp
  have word0: "(word_of_nat n :: 64 word) = 0 \<longleftrightarrow> n = 0" if "n < 2 ^ 64" for n
    using that by (simp add: word_unat_eq_iff unat_of_nat)
  consider (none) "?cls = []" | (one) h where "?cls = [h]" | (more) h h' hs where "?cls = h # h' # hs"
    by (metis list.exhaust)
  then show ?thesis
  proof cases
    case none
    then show ?thesis
      by (simp add: http_validate_request_framing_def loop scan_framing framing_spec_def)
  next
    case (one h)
    have rt: "rtrim (hdr_value h) = [] \<longleftrightarrow> dropWhile blank (rev (hdr_value h)) = []"
      by (simp add: rtrim_def)
    show ?thesis
      using one
      by (auto simp: http_validate_request_framing_def loop scan_framing framing_spec_def trim
          take_rtrim http_framing_digits_eq word0 rt [symmetric] Let_def rtrim_def [of "[]"]
          simp del: length_0_conv dropWhile_eq_Nil_conv simp: length_0_conv [of "dropWhile _ _"])
  next
    case (more h h' hs)
    then show ?thesis
      by (simp add: http_validate_request_framing_def loop scan_framing framing_spec_def)
  qed
qed

lemma framing_spec_short: "framing_spec hs = Some m \<Longrightarrow> length m < 2 ^ 63"
  by (auto simp: framing_spec_def Let_def split: if_splits list.splits)

section \<open>The answer to one request\<close>

text \<open>
  What the server does with the bytes of one request: it refuses them with a status and possibly
  a message, or serves the file, and then keeps the connection open or closes it.
\<close>

datatype decision =
    Refuse http_status_t "bytes option"
  | Serve request_view bool

definition wants_close :: "request_view \<Rightarrow> bool" where
  "wants_close w \<longleftrightarrow>
     v_version w = ''HTTP/1.0'' \<or>
     (case find (named ''Connection'') (v_headers w) of
        None \<Rightarrow> False
      | Some h \<Rightarrow> map tolower (hdr_value h) = ''close'')"

definition decide_view :: "request_view \<Rightarrow> bool \<Rightarrow> decision" where
  "decide_view w closing =
     (if v_method w \<noteq> ''GET'' \<and> v_method w \<noteq> ''HEAD''
      then Refuse HTTP_STATUS_METHOD_NOT_ALLOWED None
      else if v_version w = ''HTTP/1.1'' \<and> length (filter (named ''Host'') (v_headers w)) \<noteq> 1
      then Refuse HTTP_STATUS_BAD_REQUEST None
      else
        (case framing_spec (v_headers w) of
           Some msg \<Rightarrow> Refuse HTTP_STATUS_BAD_REQUEST (Some msg)
         | None \<Rightarrow> Serve w (closing \<or> wants_close w)))"

definition decide :: "server_config_t \<Rightarrow> bytes \<Rightarrow> bool \<Rightarrow> decision" where
  "decide config s closing =
     (case request_spec config s of
        Inl e \<Rightarrow>
          Refuse (if e = HTTP_PARSE_HEADERS_TOO_LARGE
                  then HTTP_STATUS_REQUEST_HEADER_FIELDS_TOO_LARGE
                  else HTTP_STATUS_BAD_REQUEST) None
      | Inr w \<Rightarrow> decide_view w closing)"

lemma strcasecmp_close: "strcasecmp v ''close'' = 0 \<longleftrightarrow> map tolower v = ''close''"
  by (simp add: strcasecmp_eq_0 tolower_def uchar_def)

lemma http_prepare_checked_eq:
  assumes "request_wf rq"
  shows "http_prepare_checked k rq r cc root tr =
    (case decide_view (view rq) cc of
       Refuse st msg \<Rightarrow> http_prepare_failure k r st msg tr
     | Serve w close \<Rightarrow> http_prepare_file k rq r close root tr)"
  using assms
  by (auto simp: http_prepare_checked_def decide_view_def view_def http_method_allowed_def
      http_validate_host_eq http_validate_request_framing_eq http_get_header_eq wants_close_def
      strcasecmp_close Let_def disj_assoc split: option.splits)

lemma limits_ok_config: "http_config_valid (Some cfg) \<Longrightarrow> limits_ok cfg"
  by (auto simp: http_config_valid_def limits_ok_def split: if_splits)

lemma decide_view_Serve: "decide_view v cc = Serve w close \<Longrightarrow> w = v"
  by (auto simp: decide_view_def split: if_splits option.splits)

text \<open>
  \<open>http_prepare_response\<close> implements the decision on the bytes of the request up to a NUL, whatever
  the uninitialised request struct holds.
\<close>

lemma http_prepare_response_eq:
  assumes valid: "http_config_valid (Some cfg)" and len: "len \<le> length b" "size_ok (len + 1)"
    and rq0: "length (rq_headers request0) = HTTP_MAX_HEADERS"
  defines "c \<equiv> Sys_malloc (len + 1)" and "s \<equiv> cstr (take len b)"
  shows "\<exists>rq. http_prepare_response k request0 (Some b) len (Some r) (Some cc) root (Some cfg) tr =
    (let a = k tr c; tr1 = tr @ [(c, a)]
     in if a_ret a < 0 then Some (-1, Some fresh_response, Some True, tr1)
        else
          (case decide cfg s cc of
             Refuse st msg \<Rightarrow> http_prepare_failure k fresh_response st msg tr1
           | Serve w close \<Rightarrow> http_prepare_file k rq fresh_response close root tr1)) \<and>
    (\<forall>w close. decide cfg s cc = Serve w close \<longrightarrow> view rq = w)"
proof -
  let ?bs = "take len b"
  have "NUL \<in> set (?bs @ [NUL])" by simp
  then obtain j where m: "?bs @ [NUL] = s @ NUL # j" and s: "NUL \<notin> set s"
    unfolding s_def by (rule terminated_object) simp
  obtain rq where parse: "case request_spec cfg s of
      Inl e \<Rightarrow> http_parse_request (Some (s @ NUL # j)) (Some request0) cfg = Some (e, Some rq)
    | Inr w \<Rightarrow> http_parse_request (Some (s @ NUL # j)) (Some request0) cfg =
          Some (HTTP_PARSE_OK, Some rq) \<and> request_wf rq \<and> view rq = w"
    using http_parse_request_refines [OF s limits_ok_config [OF valid] rq0, of j] by blast
  have "blit x 0 ?bs \<bind> (\<lambda>m1. blit m1 len [NUL] \<bind> f) = f (s @ NUL # j)"
    if "length x = len + 1" for x :: bytes and f :: "bytes \<Rightarrow> prepared option"
    using that len(1) by (simp add: blit_def min_absorb2 m [symmetric])
  moreover have "length (take (Suc len) (a_data a @ replicate (Suc len) NUL)) = len + 1" for a
    by simp
  moreover have "e \<noteq> HTTP_PARSE_OK" if "request_spec cfg s = Inl e" for e
    using that by (auto simp: request_spec_def split: option.splits prod.splits if_splits)
  ultimately show ?thesis
    using valid len parse
    by (intro exI [of _ rq])
      (auto simp: http_prepare_response_def malloc_def sys_def size_add_exact rd_bytes_def decide_def
        http_prepare_checked_eq c_def Let_def split: sum.splits decision.splits dest: decide_view_Serve)
qed

section \<open>Properties\<close>

definition example_headers :: http_request_t where
  "example_headers = blank_request\<lparr>rq_header_count := 2,
     rq_headers := [\<lparr>hdr_name = ''Host'', hdr_value = ''h''\<rparr>,
       \<lparr>hdr_name = ''content-length'', hdr_value = ''00''\<rparr>] @ drop 2 (rq_headers blank_request)\<rparr>"

lemma example_headers_wf [simp]: "request_wf example_headers"
  by (simp add: request_wf_def example_headers_def blank_request_def http_limits)

lemma example_active_headers [simp]:
  "active_headers example_headers =
     [\<lparr>hdr_name = ''Host'', hdr_value = ''h''\<rparr>, \<lparr>hdr_name = ''content-length'', hdr_value = ''00''\<rparr>]"
  by (simp add: active_headers_def example_headers_def)

text \<open>
  C17: The overflow test of the \<open>Content-Length\<close> parser is exact: digits are accepted precisely
  when the number they denote fits 64 bits, and the accumulated value is that number; the
  arithmetic never wraps.
\<close>

theorem http_framing_digits_correct:
  "http_framing_digits ds 0 =
     (if list_all isdigit ds \<and> dec_val ds < 2 ^ 64 then Some (word_of_nat (dec_val ds)) else None)"
  by (rule http_framing_digits_eq)

text \<open>
  C15: A request whose framing is accepted carries no body and is not ambiguous: it has no
  \<open>Transfer-Encoding\<close> header and at most one \<open>Content-Length\<close> header, and that one consists of
  digits that denote zero.
\<close>

theorem http_framing_accepted:
  assumes "request_wf rq" "http_validate_request_framing rq = Some (0, msg)"
  shows "\<not> list_ex (named ''Transfer-Encoding'') (active_headers rq) \<and>
    length (filter (named ''Content-Length'') (active_headers rq)) \<le> 1 \<and>
    (\<forall>h \<in> set (active_headers rq). named ''Content-Length'' h \<longrightarrow>
       rtrim (hdr_value h) \<noteq> [] \<and> list_all isdigit (rtrim (hdr_value h)) \<and>
       dec_val (rtrim (hdr_value h)) = 0)"
proof -
  have none: "framing_spec (active_headers rq) = None"
    using http_validate_request_framing_eq [OF assms(1)] assms(2) by (auto split: option.splits)
  let ?cls = "filter (named ''Content-Length'') (active_headers rq)"
  have one: "length ?cls \<le> 1" "\<not> list_ex (named ''Transfer-Encoding'') (active_headers rq)"
    using none by (auto simp: framing_spec_def Let_def split: if_splits)
  have "rtrim (hdr_value h) \<noteq> [] \<and> list_all isdigit (rtrim (hdr_value h)) \<and>
      dec_val (rtrim (hdr_value h)) = 0" if "h \<in> set ?cls" for h
  proof -
    from that one(1) have "?cls = [h]" by (cases ?cls) auto
    with none one(2) show ?thesis by (auto simp: framing_spec_def Let_def split: if_splits)
  qed
  with one show ?thesis by simp
qed

theorem http_framing_accepted_witness:
  "\<not> list_ex (named ''Transfer-Encoding'') (active_headers example_headers)"
proof -
  have "framing_spec (active_headers example_headers) = None" 
    by (simp add: framing_spec_def named_def tolower_def uchar_def rtrim_def blank_def dec_val_def
        digit_val_def isdigit_def Let_def)
  then have "http_validate_request_framing example_headers = Some (0, None)"
    by (simp add: http_validate_request_framing_eq)
  from http_framing_accepted [OF example_headers_wf this] show ?thesis by blast
qed

text \<open>
  C16: Framing errors are reported with their reason, on every branch: duplicate
  \<open>Content-Length\<close> headers first, then any \<open>Transfer-Encoding\<close>, then a malformed or overlong
  \<open>Content-Length\<close>, then a request body.
\<close>

theorem http_validate_request_framing_correct:
  assumes "request_wf rq"
  shows "http_validate_request_framing rq =
    Some (case framing_spec (active_headers rq) of None \<Rightarrow> (0, None) | Some m \<Rightarrow> (-1, Some m))"
  using assms by (rule http_validate_request_framing_eq)

theorem http_validate_request_framing_correct_witness:
  "http_validate_request_framing (example_headers\<lparr>rq_headers :=
       \<lparr>hdr_name = ''CONTENT-LENGTH'', hdr_value = ''1''\<rparr> # tl (rq_headers example_headers)\<rparr>) =
     Some (-1, Some ''Duplicate Content-Length headers are not supported'')"
proof -
  let ?rq = "example_headers\<lparr>rq_headers :=
       \<lparr>hdr_name = ''CONTENT-LENGTH'', hdr_value = ''1''\<rparr> # tl (rq_headers example_headers)\<rparr>"
  have act: "active_headers ?rq = [\<lparr>hdr_name = ''CONTENT-LENGTH'', hdr_value = ''1''\<rparr>,
      \<lparr>hdr_name = ''content-length'', hdr_value = ''00''\<rparr>]"
    by (simp add: active_headers_def example_headers_def)
  have cl: "named ''Content-Length'' \<lparr>hdr_name = ''CONTENT-LENGTH'', hdr_value = ''1''\<rparr>"
    "named ''Content-Length'' \<lparr>hdr_name = ''content-length'', hdr_value = ''00''\<rparr>" by code_simp+
  have "framing_spec (active_headers ?rq) = Some ''Duplicate Content-Length headers are not supported''"
    unfolding act
    by (simp add: framing_spec_def cl)
  moreover have "request_wf ?rq"
    by (simp add: request_wf_def example_headers_def blank_request_def http_limits)
  ultimately show ?thesis using http_validate_request_framing_correct [of ?rq] by simp
qed

end
