(* ===== verification/Http_Process.thy ===== *)
theory Http_Process
  imports Http_Correct
begin

text \<open>
  What \<open>http_prepare_response\<close> and \<open>http_process_connection\<close> put on the wire: the bytes of the
  answer to one request, the protocol a connection follows, and the proof that the loop of
  \<open>http_process_connection\<close> follows it.
\<close>

section \<open>The answer to one request\<close>

text \<open>
  The bytes that answer a decision, and whether the connection is closed after them. \<open>fo\<close> is
  what became of opening the file, \<open>content\<close> the bytes of the files.
\<close>

fun response_bytes :: "(int \<Rightarrow> bytes) \<Rightarrow> decision \<Rightarrow> errno + file_t \<Rightarrow> bytes" where
  "response_bytes content (Refuse status message) fo = error_response status message"
| "response_bytes content (Serve w close) (Inl e) = error_response (http_open_error_status e) None"
| "response_bytes content (Serve w close) (Inr file) =
     response_head HTTP_STATUS_OK (mime_type (v_path w)) (f_size file) (\<not> close) @
     (if v_method w = ''HEAD'' then [] else take (nat (f_size file)) (content (f_fd file)))"

fun response_closes :: "decision \<Rightarrow> errno + file_t \<Rightarrow> bool" where
  "response_closes (Refuse status message) fo = True"
| "response_closes (Serve w close) (Inl e) = True"
| "response_closes (Serve w close) (Inr file) = close"

lemma file_open_path_size:
  "stat_bounded k \<Longrightarrow> file_open_path k root p tr = (Inr file, tr') \<Longrightarrow> f_size file < 2 ^ 63"
  by (auto simp: stat_bounded_def file_open_path_def file_open_index_def sys_def Let_def
      split: if_splits)

text \<open>Events that put nothing on any connection.\<close>

definition silent :: "trace \<Rightarrow> bool" where
  "silent ev \<longleftrightarrow> (\<forall>content fd. sent content fd ev = [])"

lemma silent_append [simp]: "silent (ev @ ev') \<longleftrightarrow> silent ev \<and> silent ev'"
  by (auto simp: silent_def trace_simps)

lemma silent_Nil [simp]: "silent []"
  by (simp add: silent_def trace_simps)

lemma silent_Cons: "silent (e # ev) \<longleftrightarrow> (\<forall>content fd. ev_bytes content fd e = []) \<and> silent ev"
  by (auto simp: silent_def trace_simps)

lemma silent_close [simp]: "silent ((Sys_close fd, a) # ev) = silent ev"
  and silent_malloc [simp]: "silent ((Sys_malloc n, a) # ev) = silent ev"
  and silent_openat2 [simp]: "silent ((Sys_openat2 d p h, a) # ev) = silent ev"
  and silent_fstat [simp]: "silent ((Sys_fstat fd, a) # ev) = silent ev"
  by (simp_all add: silent_Cons)

lemma file_open_path_silent:
  "file_open_path k root p tr = (fo, tr @ ev) \<Longrightarrow> silent ev"
proof (cases rule: file_open_path_runs [where k = k and root = root and p = p and tr = tr])
  case (directory a s)
  let ?t = "tr @ [(Sys_openat2 root (file_relative_path p) file_how, a), (Sys_fstat (a_ret a), s)]"
  assume "file_open_path k root p tr = (fo, tr @ ev)"
  with directory show ?thesis
    by (cases rule: file_open_index_runs [where k = k and fd = "a_ret a" and tr = ?t]) auto
qed auto

lemma file_open_path_deaf:
  "file_open_path k root p tr = (fo, tr @ ev) \<Longrightarrow> deaf ev"
proof (cases rule: file_open_path_runs [where k = k and root = root and p = p and tr = tr])
  case (directory a s)
  let ?t = "tr @ [(Sys_openat2 root (file_relative_path p) file_how, a), (Sys_fstat (a_ret a), s)]"
  assume "file_open_path k root p tr = (fo, tr @ ev)"
  with directory show ?thesis
    by (cases rule: file_open_index_runs [where k = k and fd = "a_ret a" and tr = ?t]) auto
qed auto

text \<open>
  \<open>fo\<close> is what \<open>file_open_path\<close> made of the answers in \<open>ev\<close> for the path of the decision.
\<close>

definition file_answer :: "int \<Rightarrow> decision \<Rightarrow> errno + file_t \<Rightarrow> trace \<Rightarrow> bool" where
  "file_answer root d fo ev \<longleftrightarrow>
     (case d of
        Refuse status msg \<Rightarrow> True
      | Serve w close \<Rightarrow>
          \<exists>k t ev0 ev1 ev2. ev = ev0 @ ev1 @ ev2 \<and> file_open_path k root (v_path w) t = (fo, t @ ev1))"

lemma file_answer_append: "file_answer root d fo ev \<Longrightarrow> file_answer root d fo (ev @ ev')"
  unfolding file_answer_def by (auto split: decision.splits) (metis append_assoc)

lemma file_answer_run:
  "file_open_path k root (v_path w) t = (fo, t @ ev) \<Longrightarrow> file_answer root (Serve w close) fo ev"
  unfolding file_answer_def by simp (metis append_Nil append_Nil2)

lemma file_answer_Cons: "file_answer root d fo ev \<Longrightarrow> file_answer root d fo (e # ev)"
  unfolding file_answer_def by (auto split: decision.splits) (metis append_Cons)

text \<open>
  What holds of the outcome of a preparation: the code, the response state and the events. The
  open file, if there is one, is the response's. A preparation fails only where a call was
  refused or a file size is negative.
\<close>

definition prepared_as ::
    "int \<Rightarrow> decision \<Rightarrow> errno + file_t \<Rightarrow> int \<Rightarrow> http_response_t \<Rightarrow> bool \<Rightarrow> trace \<Rightarrow> bool" where
  "prepared_as root d fo c r close ev \<longleftrightarrow>
     silent ev \<and> deaf ev \<and> confined [root] ev \<and>
     (c = 0 \<and> response_ready r \<and>
        (\<forall>content. response_payload content r = response_bytes content d fo) \<and>
        close = response_closes d fo \<and>
        file_answer root d fo ev \<and>
        opened ev = closed ev + (if rs_file_fd r \<ge> 0 then {#rs_file_fd r#} else {#}) \<or>
      c = -1 \<and> rs_file_fd r = -1 \<and> opened ev = closed ev \<and> list_ex (refused True) ev)"

lemma prepared_as_malloc:
  "prepared_as root d fo c r close ev \<Longrightarrow> prepared_as root d fo c r close ((Sys_malloc n, a) # ev)"
  by (auto simp: prepared_as_def trace_simps intro: file_answer_Cons)

lemma error_page_short:
  "\<forall>m. msg = Some m \<longrightarrow> length m < 2 ^ 63 \<Longrightarrow> length (error_page status msg) < 2 ^ 63"
  by (cases status) (auto simp: error_page_def fmt_d_status split: option.splits)

lemma http_prepare_failure_prepared:
  assumes "status \<noteq> HTTP_STATUS_OK" "\<forall>m. msg = Some m \<longrightarrow> length m < 2 ^ 63"
    and "silent ev" "deaf ev" "confined [root] ev" "opened ev = closed ev"
    and "\<And>content. response_bytes content d fo = error_response status msg" "response_closes d fo"
    and "file_answer root d fo ev"
  shows "\<exists>c r ev'. http_prepare_failure k fresh_response status msg (tr @ ev) =
      Some (c, Some r, Some True, tr @ ev') \<and> prepared_as root d fo c r True ev'"
proof -
  let ?c = "Sys_malloc (length (error_page status msg))"
  let ?ev = "ev @ [(?c, k (tr @ ev) ?c)]"
  have "silent ?ev" "deaf ?ev" "confined [root] ?ev" "opened ?ev = closed ?ev"
    "file_answer root d fo ?ev"
    using assms(3-6) file_answer_append [OF assms(9)] by (simp_all add: confined_append trace_simps)
  then show ?thesis
    using assms http_response_prepare_error_eq [OF assms(1) error_page_short [OF assms(2)] fresh_headers]
    by (auto simp: http_prepare_failure_def Let_def prepared_as_def response_ready_def
        response_payload_def headers_block_def body_block_def file_block_def fresh_response_def
        error_response_def intro!: exI [of _ ?ev])
qed

lemma http_open_error_status_not_OK [simp]: "http_open_error_status e \<noteq> HTTP_STATUS_OK"
  by (simp add: http_open_error_status_def)

lemma http_prepare_file_prepared:
  fixes root tr
  assumes "stat_bounded k" and w: "view rq = w"
  defines "fo \<equiv> fst (file_open_path k root (v_path w) tr)"
  shows "\<exists>c r cc ev. http_prepare_file k rq fresh_response close root tr =
      Some (c, Some r, Some cc, tr @ ev) \<and> prepared_as root (Serve w close) fo c r cc ev"
proof -
  have path: "v_path w = rq_path rq" "v_method w = rq_method rq" using w by (auto simp: view_def)
  obtain o1 tr1 where run: "file_open_path k root (rq_path rq) tr = (o1, tr1)" by fastforce
  have fo: "fo = o1" by (simp add: fo_def path run)
  show ?thesis
  proof (cases o1)
    case (Inl e)
    with file_api.open_fails run obtain ev where ev: "tr1 = tr @ ev" "opened ev = closed ev"
      "confined [root] ev" by blast
    with run have "silent ev" "deaf ev" using file_open_path_silent file_open_path_deaf by blast+
    moreover have "file_answer root (Serve w close) fo ev"
      using run ev(1) fo path(1) by (intro file_answer_run [of k root w tr]) simp
    ultimately show ?thesis using ev Inl run fo
      using http_prepare_failure_prepared [of "http_open_error_status e" None ev root
          "Serve w close" fo k tr]
      by (auto simp: http_prepare_file_def)
  next
    case (Inr f)
    with file_api.open_succeeds run obtain ev where ev: "tr1 = tr @ ev"
      "opened ev = add_mset (f_fd f) (closed ev)" "confined [root] ev" "0 \<le> f_fd f"
      "stat_regular ev f" by blast
    with run have sil: "silent ev" "deaf ev"
      using file_open_path_silent file_open_path_deaf by blast+
    have ans: "file_answer root (Serve w close) fo ev"
      using run ev(1) fo path(1) by (intro file_answer_run [of k root w tr]) simp
    have size: "f_size f < 2 ^ 63" using file_open_path_size [OF assms(1)] run Inr by blast
    show ?thesis
    proof (cases "0 \<le> f_size f")
      case True
      note head = http_build_response_headers_fits [OF True size mime_type_length fresh_headers]
      with run Inr ev(1-4) sil ans fo True show ?thesis
        by (auto simp: http_prepare_file_def head overwritten_def prepared_as_def response_ready_def response_payload_def
            headers_block_def body_block_def file_block_def path)
    next
      case False
      have cl: "\<exists>a. close_fd k (f_fd f) tr1 = tr @ ev @ [(Sys_close (f_fd f), a)]"
        by (simp add: close_fd_def sys_def ev(1))
      have "list_ex (refused True) ev"
      proof -
        obtain a where "(Sys_fstat (f_fd f), a) \<in> set ev" "a_size a = f_size f"
          using ev(5) by (auto simp: stat_regular_def)
        with False show ?thesis
          unfolding list_ex_iff by (intro bexI [of _ "(Sys_fstat (f_fd f), a)"]) simp_all
      qed
      with cl run Inr ev(1-4) sil fo False show ?thesis
        by (auto simp: http_prepare_file_def http_build_response_headers_def prepared_as_def
            fresh_response_def confined_append trace_simps HTTP_RESPONSE_HEADER_MAX_def)
    qed
  qed
qed

lemma decide_Refuse:
  assumes "decide cfg s cc = Refuse status msg"
  shows "status \<noteq> HTTP_STATUS_OK \<and> (\<forall>m. msg = Some m \<longrightarrow> length m < 2 ^ 63)"
  using assms
  by (auto simp: decide_def decide_view_def split: sum.splits if_splits option.splits
      dest: framing_spec_short)

text \<open>The file that the preparation of the first \<open>len\<close> bytes of \<open>b\<close> tries to open.\<close>

definition requested_file ::
    "kernel \<Rightarrow> int \<Rightarrow> decision \<Rightarrow> nat \<Rightarrow> trace \<Rightarrow> errno + file_t" where
  "requested_file k root d len tr =
     (case d of
        Refuse status msg \<Rightarrow> Inl EINVAL
      | Serve w close \<Rightarrow> fst (file_open_path k root (v_path w) (snd (malloc k (len + 1) tr))))"

lemma http_prepare_response_prepared:
  fixes cc
  assumes valid: "http_config_valid (Some cfg)" and len: "len \<le> length b" "size_ok (len + 1)"
    and rq0: "length (rq_headers request0) = HTTP_MAX_HEADERS" and stat: "stat_bounded k"
  defines "d \<equiv> decide cfg (cstr (take len b)) cc"
  shows "\<exists>c r' cc' ev.
    http_prepare_response k request0 (Some b) len (Some r) (Some cc) root (Some cfg) tr =
      Some (c, Some r', Some cc', tr @ ev) \<and>
    prepared_as root d (requested_file k root d len tr) c r' cc' ev"
proof -
  let ?c = "Sys_malloc (len + 1)"
  let ?a = "k tr ?c"
  let ?ev = "[(?c, ?a)]"
  obtain rq where prep: "http_prepare_response k request0 (Some b) len (Some r) (Some cc) root (Some cfg) tr =
    (if a_ret ?a < 0 then Some (-1, Some fresh_response, Some True, tr @ ?ev)
     else (case d of
             Refuse st msg \<Rightarrow> http_prepare_failure k fresh_response st msg (tr @ ?ev)
           | Serve w close \<Rightarrow> http_prepare_file k rq fresh_response close root (tr @ ?ev)))"
    and view: "\<And>w close. d = Serve w close \<Longrightarrow> view rq = w"
    using http_prepare_response_eq [OF valid len rq0, of k r cc root tr, folded d_def] unfolding Let_def by blast
  have mall: "snd (malloc k (len + 1) tr) = tr @ ?ev" by (simp add: malloc_def sys_def)
  have ev: "silent ?ev" "deaf ?ev" "confined [root] ?ev" "opened ?ev = closed ?ev" by (simp_all add: trace_simps)
  show ?thesis
  proof (cases "a_ret ?a < 0")
    case True
    with prep ev show ?thesis by (auto simp: prepared_as_def fresh_response_def)
  next
    case False
    show ?thesis
    proof (cases d)
      case (Refuse st msg)
      with decide_Refuse [of cfg "cstr (take len b)" cc st msg] d_def
      have refuse: "st \<noteq> HTTP_STATUS_OK" "\<forall>m. msg = Some m \<longrightarrow> length m < 2 ^ 63" by auto
      have "file_answer root d (requested_file k root d len tr) ?ev"
        using Refuse by (simp add: file_answer_def)
      from http_prepare_failure_prepared [OF refuse ev _ _ this, of k tr]
      show ?thesis using prep False Refuse by auto
    next
      case (Serve w close)
      from http_prepare_file_prepared [OF stat view [OF Serve],
          where root = root and tr = "tr @ ?ev" and close = close]
      show ?thesis
        using prep False Serve prepared_as_malloc
        by (fastforce simp: requested_file_def mall [simplified])
    qed
  qed
qed

section \<open>The protocol of a connection\<close>

text \<open>
  One request answered in full: everything the events sent is the answer to the request, the
  file it needed is closed again, nothing outside the root was opened, and nothing received.
\<close>

definition exchange :: "server_config_t \<Rightarrow> int \<Rightarrow> int \<Rightarrow> bytes \<Rightarrow> trace \<Rightarrow> bool \<Rightarrow> bool" where
  "exchange cfg root fd req ev close \<longleftrightarrow>
     confined [root] ev \<and> opened ev = closed ev \<and> deaf ev \<and>
     (\<exists>fo. file_answer root (decide cfg (cstr req) False) fo ev \<and>
        (\<forall>content. sent content fd ev = response_bytes content (decide cfg (cstr req) False) fo) \<and>
        close = response_closes (decide cfg (cstr req) False) fo)"

text \<open>
  An answer that broke off because a call was refused: a prefix of it was sent, and at most one
  descriptor stays open.
\<close>

definition broken :: "server_config_t \<Rightarrow> int \<Rightarrow> int \<Rightarrow> bytes \<Rightarrow> trace \<Rightarrow> bool" where
  "broken cfg root fd req ev \<longleftrightarrow>
     confined [root] ev \<and> list_ex (refused True) ev \<and>
     (\<exists>left. opened ev = closed ev + left \<and> size left \<le> 1) \<and>
     (\<exists>fo. \<forall>content. prefix (sent content fd ev)
        (response_bytes content (decide cfg (cstr req) False) fo))"

text \<open>
  \<open>conversation cfg root fd s ev code close rest\<close>: with the bytes \<open>s\<close> received, the server
  answers the complete requests in them one after the other, in order, with the events \<open>ev\<close>,
  until no complete request is left, an answer closes the connection, or an answer breaks off.
  \<open>rest\<close> are the bytes it keeps.
\<close>

inductive conversation ::
    "server_config_t \<Rightarrow> int \<Rightarrow> int \<Rightarrow> bytes \<Rightarrow> trace \<Rightarrow> int \<Rightarrow> bool \<Rightarrow> bytes \<Rightarrow> bool"
  for cfg root fd where
  waiting: "header_end_spec s = None \<Longrightarrow> conversation cfg root fd s [] 0 False s"
| broke: "header_end_spec s = Some e \<Longrightarrow> broken cfg root fd (take e s) ev \<Longrightarrow>
    conversation cfg root fd s ev (-1) close s"
| final: "header_end_spec s = Some e \<Longrightarrow> exchange cfg root fd (take e s) ev True \<Longrightarrow>
    conversation cfg root fd s ev 0 True (drop e s)"
| continue: "header_end_spec s = Some e \<Longrightarrow> exchange cfg root fd (take e s) ev False \<Longrightarrow>
    conversation cfg root fd (drop e s) ev' code close rest \<Longrightarrow>
    conversation cfg root fd s (ev @ ev') code close rest"

inductive_cases conversation_okE: "conversation cfg root fd s ev 0 close rest"

lemma conversation_confined: "conversation cfg root fd s ev code close rest \<Longrightarrow> confined [root] ev"
  by (induction rule: conversation.induct)
    (auto simp: exchange_def broken_def confined_append)

lemma conversation_suffix: "conversation cfg root fd s ev code close rest \<Longrightarrow> suffix rest s"
  by (induction rule: conversation.induct) (auto intro: suffix_drop suffix_order.trans)

lemma conversation_code:
  "conversation cfg root fd s ev code close rest \<Longrightarrow>
   code = -1 \<and> list_ex (refused True) ev \<or>
   code = 0 \<and> opened ev = closed ev \<and> (close \<or> header_end_spec rest = None)"
  by (induction rule: conversation.induct) (auto simp: exchange_def broken_def trace_simps)

section \<open>The loop follows the protocol\<close>

lemma http_response_destroy_closes:
  "\<exists>r' ev. http_response_destroy k (Some r) tr = (Some r', tr @ ev) \<and> silent ev \<and>
     deaf ev \<and> confined dirs ev \<and> opened ev = {#} \<and>
     closed ev = (if rs_file_fd r \<ge> 0 then {#rs_file_fd r#} else {#})"
  by (simp add: http_response_destroy_def sys_def trace_simps)

text \<open>The two ways a turn can end.\<close>

definition turn_breaks ::
    "server_config_t \<Rightarrow> int \<Rightarrow> int \<Rightarrow> http_connection_t \<Rightarrow> nat \<Rightarrow> http_connection_t \<Rightarrow> trace \<Rightarrow> bool" where
  "turn_breaks cfg root fd c e c' ev \<longleftrightarrow>
     connection_inv c' \<and> cn_buffer_capacity c' = cn_buffer_capacity c \<and>
     connection_contents c' = connection_contents c \<and>
     broken cfg root fd (take e (connection_contents c)) ev"

definition turn_answers ::
    "server_config_t \<Rightarrow> int \<Rightarrow> int \<Rightarrow> http_connection_t \<Rightarrow> nat \<Rightarrow> http_connection_t \<Rightarrow> trace \<Rightarrow> bool" where
  "turn_answers cfg root fd c e c' ev \<longleftrightarrow>
     connection_inv c' \<and> cn_buffer_capacity c' = cn_buffer_capacity c \<and>
     connection_contents c' = drop e (connection_contents c) \<and>
     exchange cfg root fd (take e (connection_contents c)) ev (cn_close_connection c')"

lemma connection_inv_fields [simp]:
  "connection_inv (c\<lparr>cn_response := r\<rparr>) = connection_inv c"
  "connection_inv (c\<lparr>cn_close_connection := x\<rparr>) = connection_inv c"
  "connection_contents (c\<lparr>cn_response := r\<rparr>) = connection_contents c"
  "connection_contents (c\<lparr>cn_close_connection := x\<rparr>) = connection_contents c"
  by (simp_all add: connection_inv_def connection_contents_def split: option.splits)

text \<open>A prepared response that was sent, in part or in full, and then released.\<close>

lemma prepared_breaks:
  assumes "prepared_as root d fo c r close ev" "d = decide cfg (cstr req) False"
    and "c = 0 \<Longrightarrow> \<forall>content. sends content fd (response_payload content r) (-1) ev'"
    and "c \<noteq> 0 \<Longrightarrow> ev' = []"
  shows "broken cfg root fd req (ev @ ev')"
proof (cases "c = 0")
  case True
  with assms(1) have p: "silent ev" "confined [root] ev"
    "\<And>content. response_payload content r = response_bytes content d fo"
    "opened ev = closed ev + (if rs_file_fd r \<ge> 0 then {#rs_file_fd r#} else {#})"
    by (auto simp: prepared_as_def)
  from assms(3) True have q: "\<And>content. prefix (sent content fd ev') (response_payload content r)"
    "list_all (\<lambda>x. data_call (fst x)) ev'" "list_ex (refused True) ev'" by (auto simp: sends_def)
  note neutral = data_call_balance [OF q(2)]
  have "size (if rs_file_fd r \<ge> 0 then {#rs_file_fd r#} else {#}) \<le> 1" by simp
  then have "\<exists>left. opened (ev @ ev') = closed (ev @ ev') + left \<and> size left \<le> 1"
    using p(4) neutral by (auto simp: trace_simps)
  moreover have "\<And>content. prefix (sent content fd (ev @ ev')) (response_bytes content d fo)"
    using p(1,3) q(1) by (simp add: trace_simps silent_def)
  ultimately show ?thesis
    unfolding broken_def using p(2) q(2,3) assms(2) confined_append confined_data_calls
    by (metis list_ex_append)
next
  case False
  with assms show ?thesis by (auto simp: prepared_as_def broken_def silent_def)
qed

lemma prepared_answers:
  assumes "prepared_as root d fo 0 r close ev" "d = decide cfg (cstr req) False"
    and "\<forall>content. sends content fd (response_payload content r) 0 ev'"
    and "silent ev''" "deaf ev''" "confined [root] ev''" "opened ev'' = {#}"
      "closed ev'' = (if rs_file_fd r \<ge> 0 then {#rs_file_fd r#} else {#})"
  shows "exchange cfg root fd req (ev @ ev' @ ev'') close"
proof -
  from assms(3) have q: "\<And>content. sent content fd ev' = response_payload content r"
    "list_all (\<lambda>x. data_call (fst x)) ev'" by (auto simp: sends_def)
  note neutral = data_call_balance [OF q(2)] confined_data_calls [OF q(2), of "[root]"]
  have "deaf (ev @ ev' @ ev'')"
    using assms(1,5) data_call_deaf [OF q(2)] by (simp add: prepared_as_def)
  moreover have "\<And>content. sent content fd (ev @ ev' @ ev'') = response_bytes content d fo"
    using assms(1,4) q(1) by (auto simp: trace_simps silent_def prepared_as_def)
  moreover have "opened (ev @ ev' @ ev'') = closed (ev @ ev' @ ev'')"
    using assms(1,7,8) neutral(1) by (auto simp: trace_simps prepared_as_def)
  moreover have "confined [root] (ev @ ev' @ ev'')" "close = response_closes d fo"
    using assms(1,6) neutral(2) by (auto simp: prepared_as_def intro!: confined_append)
  moreover have "file_answer root d fo (ev @ ev' @ ev'')"
    using assms(1) by (auto simp: prepared_as_def intro: file_answer_append)
  ultimately show ?thesis unfolding exchange_def using assms(2) by blast
qed

lemma http_process_turn:
  fixes k cfg root request0 c fd tr
  assumes fair: "fair_kernel k" and valid: "http_config_valid (Some cfg)"
    and rq0: "\<forall>t. length (rq_headers (request0 t)) = HTTP_MAX_HEADERS"
    and inv: "connection_inv c" and cap: "size_ok (cn_buffer_capacity c + 1)"
    and open_conn: "\<not> cn_close_connection c"
    and e: "header_end_spec (connection_contents c) = Some e"
  shows "\<exists>c' ev.
      http_process_loop k request0 c fd root cfg tr = Some (-1, c', tr @ ev) \<and>
        turn_breaks cfg root fd c e c' ev \<or>
      http_process_loop k request0 c fd root cfg tr =
        (if cn_close_connection c' then Some (0, c', tr @ ev)
         else http_process_loop k request0 c' fd root cfg (tr @ ev)) \<and>
        turn_answers cfg root fd c e c' ev"
proof -
  from inv obtain b where b: "cn_buffer c = Some b" "length b = cn_buffer_capacity c"
    "cn_buffer_used c \<le> cn_buffer_capacity c" "connection_contents c = take (cn_buffer_used c) b"
    by (rule connection_invE)
  have e_bounds: "0 < e" "e \<le> cn_buffer_used c"
    using header_end_spec_bounds [OF e] b by auto
  let ?req = "take e (connection_contents c)"
  have req: "take e b = ?req" using b(4) e_bounds by (simp add: min_absorb1)
  have e_size: "e \<le> length b" "size_ok (e + 1)"
    using e_bounds b(2,3) cap by (auto intro: size_ok_mono)
  let ?d = "decide cfg (cstr ?req) False"
  let ?prep = "http_prepare_response k (request0 tr) (Some b) e (Some (cn_response c))
    (Some (cn_close_connection c)) root (Some cfg) tr"
  have stat: "stat_bounded k" using fair by (simp add: fair_kernel_def)
  obtain pc r cc ev1 where prep: "?prep = Some (pc, Some r, Some cc, tr @ ev1)"
    and as: "prepared_as root ?d (requested_file k root ?d e tr) pc r cc ev1"
    using http_prepare_response_prepared [OF valid e_size rq0 [rule_format, of tr] stat,
        where cc = False and r = "cn_response c" and root = root and tr = tr, unfolded req] open_conn
    by auto
  let ?c1 = "c\<lparr>cn_response := r, cn_close_connection := cc\<rparr>"
  have ready: "http_connection_request_ready (Some c) = Some True"
    "http_connection_request_length (Some c) = Some e"
    using http_connection_ready_eq [OF inv] e by auto
  note unfold = http_process_loop.simps [of k request0 c fd root cfg tr]
  show ?thesis
  proof (cases "pc = 0")
    case False
    with as have "pc = -1" by (auto simp: prepared_as_def)
    with unfold ready prep e_bounds b have "http_process_loop k request0 c fd root cfg tr =
        Some (-1, ?c1, tr @ ev1)" by (simp add: http_connection_data_def)
    moreover have "turn_breaks cfg root fd c e ?c1 ev1"
      using prepared_breaks [OF as refl, of fd "[]"] False inv by (simp add: turn_breaks_def)
    ultimately show ?thesis by blast
  next
    case True
    with as have rdy: "response_ready r" by (auto simp: prepared_as_def)
    have send: "\<exists>sc r2 ev2. http_response_send_blocking k fd (Some r) (tr @ ev1) =
        Some (sc, Some r2, (tr @ ev1) @ ev2) \<and>
        sends content fd (response_payload content r) sc ev2 \<and> rs_file_fd r2 = rs_file_fd r" for content
      using http_response_send_blocking_total [of k r fd "tr @ ev1" content] fair rdy
      by (auto simp: fair_kernel_def)
    then obtain sc r2 ev2 where sb: "http_response_send_blocking k fd (Some r) (tr @ ev1) =
        Some (sc, Some r2, tr @ ev1 @ ev2)" "rs_file_fd r2 = rs_file_fd r" by fastforce
    with send have sends: "\<forall>content. sends content fd (response_payload content r) sc ev2" by fastforce
    then have "sc = 0 \<or> sc = -1" by (auto simp: sends_def)
    then show ?thesis
    proof
      assume sc: "sc = -1"
      let ?c2 = "?c1\<lparr>cn_response := r2\<rparr>"
      from sc unfold ready prep e_bounds b sb True have "http_process_loop k request0 c fd root cfg tr =
          Some (-1, ?c2, tr @ ev1 @ ev2)" by (simp add: http_connection_data_def)
      moreover have "turn_breaks cfg root fd c e ?c2 (ev1 @ ev2)"
        using prepared_breaks [OF as refl, of fd ev2] True sends sc inv by (simp add: turn_breaks_def)
      ultimately show ?thesis by blast
    next
      assume sc: "sc = 0"
      obtain r3 ev3 where d: "http_response_destroy k (Some r2) (tr @ ev1 @ ev2) =
          (Some r3, (tr @ ev1 @ ev2) @ ev3)" "silent ev3" "deaf ev3" "confined [root] ev3"
          "opened ev3 = {#}"
          "closed ev3 = (if rs_file_fd r \<ge> 0 then {#rs_file_fd r#} else {#})"
        using http_response_destroy_closes [of k r2 "tr @ ev1 @ ev2" "[root]"] sb(2) by auto
      let ?c3 = "?c1\<lparr>cn_response := r3\<rparr>"
      have inv3: "connection_inv ?c3" "connection_contents ?c3 = connection_contents c"
        using inv by simp_all
      obtain b' where b': "http_connection_consume (Some ?c3) e =
          Some (Some (?c3\<lparr>cn_buffer := Some b', cn_buffer_used := cn_buffer_used c - e\<rparr>))"
        "length b' = cn_buffer_capacity c"
        "take (cn_buffer_used c - e) b' = drop e (connection_contents c)"
        using http_connection_consume_ok [OF inv3(1), of e] e_bounds(2) inv3(2) by auto
      let ?c4 = "?c3\<lparr>cn_buffer := Some b', cn_buffer_used := cn_buffer_used c - e\<rparr>"
      let ?ev = "ev1 @ ev2 @ ev3"
      have "http_process_loop k request0 c fd root cfg tr =
        (if cn_close_connection ?c4 then Some (0, ?c4, tr @ ?ev)
         else http_process_loop k request0 ?c4 fd root cfg (tr @ ?ev))"
        using sc unfold ready prep e_bounds b sb True d(1) b'(1)
        by (simp add: http_connection_data_def)
      moreover have "exchange cfg root fd ?req ?ev cc"
        using prepared_answers [OF as [unfolded True] refl _ d(2-6)] sends sc by simp
      then have "turn_answers cfg root fd c e ?c4 ?ev"
        using inv b' b(3) by (simp add: turn_answers_def connection_inv_def connection_contents_def)
      ultimately show ?thesis by blast
    qed
  qed
qed

lemma http_process_loop_follows:
  assumes "fair_kernel k" "http_config_valid (Some cfg)"
    and "\<forall>t. length (rq_headers (request0 t)) = HTTP_MAX_HEADERS"
    and "connection_inv c" "size_ok (cn_buffer_capacity c + 1)" "\<not> cn_close_connection c"
  shows "\<exists>code c' ev close. http_process_loop k request0 c fd root cfg tr = Some (code, c', tr @ ev) \<and>
    connection_inv c' \<and> cn_buffer_capacity c' = cn_buffer_capacity c \<and>
    conversation cfg root fd (connection_contents c) ev code close (connection_contents c') \<and>
    (code = 0 \<longrightarrow> cn_close_connection c' = close)"
  using assms(4-6)
proof (induction "length (connection_contents c)" arbitrary: c tr rule: less_induct)
  case less
  show ?case
  proof (cases "header_end_spec (connection_contents c)")
    case None
    then have "http_process_loop k request0 c fd root cfg tr = Some (0, c, tr @ [])"
      using http_connection_ready_eq(1) [OF less.prems(1)]
      by (subst http_process_loop.simps) simp
    moreover have "conversation cfg root fd (connection_contents c) [] 0 False (connection_contents c)"
      using None by (rule conversation.waiting)
    ultimately show ?thesis using less.prems by blast
  next
    case (Some e)
    from http_process_turn [OF assms(1-3) less.prems Some, of fd root tr]
    obtain c' ev where turn:
      "http_process_loop k request0 c fd root cfg tr = Some (-1, c', tr @ ev) \<and>
         turn_breaks cfg root fd c e c' ev \<or>
       http_process_loop k request0 c fd root cfg tr =
         (if cn_close_connection c' then Some (0, c', tr @ ev)
          else http_process_loop k request0 c' fd root cfg (tr @ ev)) \<and>
         turn_answers cfg root fd c e c' ev" by blast
    then show ?thesis
    proof (elim disjE conjE)
      assume "http_process_loop k request0 c fd root cfg tr = Some (-1, c', tr @ ev)"
        and "turn_breaks cfg root fd c e c' ev"
      with Some show ?thesis
        by (fastforce simp: turn_breaks_def intro: conversation.broke)
    next
      assume run: "http_process_loop k request0 c fd root cfg tr =
         (if cn_close_connection c' then Some (0, c', tr @ ev)
          else http_process_loop k request0 c' fd root cfg (tr @ ev))"
        and ans: "turn_answers cfg root fd c e c' ev"
      show ?thesis
      proof (cases "cn_close_connection c'")
        case True
        with run ans Some show ?thesis
          by (fastforce simp: turn_answers_def intro: conversation.final)
      next
        case False
        have "length (connection_contents c') < length (connection_contents c)"
          using ans header_end_spec_bounds [OF Some] by (auto simp: turn_answers_def)
        from less.hyps [OF this, of "tr @ ev"] False ans less.prems(2)
        obtain code c2 ev2 close where rec:
          "http_process_loop k request0 c' fd root cfg (tr @ ev) = Some (code, c2, (tr @ ev) @ ev2)"
          "connection_inv c2" "cn_buffer_capacity c2 = cn_buffer_capacity c'"
          "conversation cfg root fd (connection_contents c') ev2 code close (connection_contents c2)"
          "code = 0 \<longrightarrow> cn_close_connection c2 = close"
          by (auto simp: turn_answers_def)
        have "conversation cfg root fd (connection_contents c) (ev @ ev2) code close (connection_contents c2)"
          using Some ans False rec(4) by (auto simp: turn_answers_def intro: conversation.continue)
        moreover have "http_process_loop k request0 c fd root cfg tr = Some (code, c2, tr @ (ev @ ev2))"
          using run False rec(1) by simp
        ultimately show ?thesis using rec ans by (metis turn_answers_def)
      qed
    qed
  qed
qed

lemma http_process_connection_follows:
  assumes "fair_kernel k" "http_config_valid (Some cfg)"
    and "\<forall>t. length (rq_headers (request0 t)) = HTTP_MAX_HEADERS"
    and "connection_inv c" "size_ok (cn_buffer_capacity c + 1)" "\<not> cn_close_connection c"
  shows "\<exists>code c' ev close. http_process_connection k request0 (Some c) fd root (Some cfg) tr =
      Some (code, Some c', tr @ ev) \<and>
    connection_inv c' \<and> cn_buffer_capacity c' = cn_buffer_capacity c \<and>
    conversation cfg root fd (connection_contents c) ev code close (connection_contents c') \<and>
    (code = 0 \<longrightarrow> cn_close_connection c' = close)"
proof -
  from http_process_loop_follows [OF assms, of fd root tr] obtain code c' ev close where
    "http_process_loop k request0 c fd root cfg tr = Some (code, c', tr @ ev)"
    "connection_inv c'" "cn_buffer_capacity c' = cn_buffer_capacity c"
    "conversation cfg root fd (connection_contents c) ev code close (connection_contents c')"
    "code = 0 \<longrightarrow> cn_close_connection c' = close" by blast
  with assms(2) show ?thesis
    by (intro exI [of _ code] exI [of _ c'] exI [of _ ev] exI [of _ close])
      (simp add: http_process_connection_def)
qed

section \<open>Responses delimit themselves\<close>

lemma header_end_spec_line:
  "CR \<notin> set l \<Longrightarrow> header_end_spec (l @ CR # LF # s) =
     (if prefix CRLF s then Some (length l + 4)
      else map_option ((+) (length l + 2)) (header_end_spec s))"
proof (induction l)
  case Nil
  then show ?case by (cases "header_end_spec s") (auto simp: HEND_def)
next
  case (Cons c l)
  then have "\<not> prefix HEND ((c # l) @ CR # LF # s)" by (auto simp: HEND_def)
  with Cons show ?case by (cases "header_end_spec s") auto
qed

lemma header_end_spec_lines:
  assumes "CR \<notin> set l1" "CR \<notin> set (c2 # l2)" "CR \<notin> set (c3 # l3)" "CR \<notin> set (c4 # l4)"
  shows "header_end_spec (l1 @ CR # LF # (c2 # l2) @ CR # LF # (c3 # l3) @ CR # LF #
      (c4 # l4) @ CR # LF # CRLF @ body) =
    Some (length l1 + length l2 + length l3 + length l4 + 13)"
  unfolding header_end_spec_line [OF assms(1)] header_end_spec_line [OF assms(2)]
    header_end_spec_line [OF assms(3)] header_end_spec_line [OF assms(4)]
  using assms by auto

lemma dec_str_no_CR: "CR \<notin> set (dec_str n)"
  using dec_str_props [of n] by (auto simp: list_all_iff isdigit_def uchar_def)

lemma fmt_d_no_CR: "0 \<le> n \<Longrightarrow> CR \<notin> set (fmt_d n)"
  by (simp add: fmt_d_def dec_str_no_CR)

lemma status_no_CR: "CR \<notin> set (http_status_reason status)" "CR \<notin> set (fmt_d (http_status_code status))"
  by (cases status; simp) (cases status; simp add: fmt_d_no_CR)

lemma response_head_end:
  assumes "0 \<le> n" "CR \<notin> set ct"
  shows "header_end_spec (response_head status ct n ka @ body) = Some (length (response_head status ct n ka))"
proof -
  let ?l1 = "''HTTP/1.1 '' @ fmt_d (http_status_code status) @ '' '' @ http_status_reason status"
    and ?l2 = "''ontent-Type: '' @ ct" and ?l3 = "''ontent-Length: '' @ fmt_d n"
    and ?l4 = "''onnection: '' @ (if ka then ''keep-alive'' else ''close'')"
  have head: "response_head status ct n ka @ body = ?l1 @ CR # LF # (CHR ''C'' # ?l2) @ CR # LF #
      (CHR ''C'' # ?l3) @ CR # LF # (CHR ''C'' # ?l4) @ CR # LF # CRLF @ body"
    by (simp add: response_head_def)
  have "CR \<notin> set ?l1" "CR \<notin> set (CHR ''C'' # ?l2)" "CR \<notin> set (CHR ''C'' # ?l3)"
    "CR \<notin> set (CHR ''C'' # ?l4)"
    using assms status_no_CR [of status] fmt_d_no_CR by auto
  from header_end_spec_lines [OF this] show ?thesis
    unfolding head by (simp add: response_head_def)
qed

section \<open>Properties\<close>

definition example_ready :: http_connection_t where
  "example_ready = \<lparr>cn_buffer = Some (example_request @ replicate 100 NUL),
     cn_buffer_used = length example_request, cn_buffer_capacity = length example_request + 100,
     cn_close_connection = False, cn_response = fresh_response\<rparr>"

lemma example_ready_simps [simp]:
  "connection_inv example_ready" "connection_contents example_ready = example_request"
  "\<not> cn_close_connection example_ready" "size_ok (Suc (cn_buffer_capacity example_ready))"
  by (simp_all add: connection_inv_def connection_contents_def example_ready_def size_ok_def
      example_request_def)

lemma example_decides:
  "decide example_config (cstr (take (length example_request) (example_request @ x))) False =
     Serve \<lparr>v_method = ''GET'', v_path = ''/a.txt'', v_query = [], v_version = ''HTTP/1.1'',
       v_headers = [\<lparr>hdr_name = ''Host'', hdr_value = ''h''\<rparr>]\<rparr> False"
proof -
  have "decide example_config (cstr example_request) False =
     Serve \<lparr>v_method = ''GET'', v_path = ''/a.txt'', v_query = [], v_version = ''HTTP/1.1'',
       v_headers = [\<lparr>hdr_name = ''Host'', hdr_value = ''h''\<rparr>]\<rparr> False" by code_simp
  then show ?thesis by simp
qed

lemma example_config_valid [simp]: "http_config_valid (Some example_config)"
  by (simp add: http_config_valid_def example_config_def http_limits)

text \<open>
  C6: \<open>http_prepare_response\<close> implements the decision \<open>decide\<close> on the bytes of the request,
  whatever the uninitialised request struct holds. It either fails, leaving no descriptor open,
  or prepares a response that is ready to be sent and whose bytes are exactly the answer to the
  decision: an error page of the right status, or the header block and, except for HEAD, the
  file. It sends nothing itself and opens files beneath the root only.
\<close>

theorem http_prepare_response_correct:
  assumes "http_config_valid (Some cfg)" "len \<le> length b" "size_ok (len + 1)"
    and "length (rq_headers request0) = HTTP_MAX_HEADERS" "stat_bounded k"
  shows "\<exists>c r' cc' ev.
    http_prepare_response k request0 (Some b) len (Some r) (Some cc) root (Some cfg) tr =
      Some (c, Some r', Some cc', tr @ ev) \<and>
    prepared_as root (decide cfg (cstr (take len b)) cc)
      (requested_file k root (decide cfg (cstr (take len b)) cc) len tr) c r' cc' ev"
  using assms by (rule http_prepare_response_prepared)

theorem http_prepare_response_correct_witness:
  "\<exists>c r' cc' ev.
    http_prepare_response example_kernel blank_request (Some (example_request @ [NUL]))
      (length example_request) (Some fresh_response) (Some False) 4 (Some example_config) [] =
      Some (c, Some r', Some cc', [] @ ev) \<and>
    prepared_as 4 (decide example_config (cstr (take (length example_request) (example_request @ [NUL]))) False)
      (requested_file example_kernel 4
        (decide example_config (cstr (take (length example_request) (example_request @ [NUL]))) False)
        (length example_request) []) c r' cc' ev"
  by (rule http_prepare_response_correct) (simp_all add: size_ok_def example_request_def)

text \<open>
  A path that the kernel refuses because it leaves the document root, passes a symbolic link
  or may not be read is answered with 403, and the connection is closed.
\<close>

theorem http_prepare_response_forbidden:
  assumes "http_config_valid (Some cfg)" "len \<le> length b" "size_ok (len + 1)"
    and "length (rq_headers request0) = HTTP_MAX_HEADERS" "stat_bounded k"
    and "decide cfg (cstr (take len b)) cc = Serve w close" "v_path w \<noteq> []" "hd (v_path w) = CHR ''/''"
    and "\<forall>t. a_ret (k t (Sys_openat2 root (file_relative_path (v_path w)) file_how)) < 0 \<and>
      a_errno (k t (Sys_openat2 root (file_relative_path (v_path w)) file_how)) \<in> {EXDEV, ELOOP, EACCES, EPERM}"
  shows "\<exists>c r' cc' ev.
    http_prepare_response k request0 (Some b) len (Some r) (Some cc) root (Some cfg) tr =
      Some (c, Some r', Some cc', tr @ ev) \<and> (c = 0 \<or> c = -1) \<and>
    (c = 0 \<longrightarrow> cc' \<and>
      (\<forall>content. response_payload content r' = error_response HTTP_STATUS_FORBIDDEN None))"
proof -
  let ?d = "decide cfg (cstr (take len b)) cc" and ?t = "snd (malloc k (len + 1) tr)"
  obtain e where e: "requested_file k root ?d len tr = Inl e" "e = EACCES \<or> e = EPERM"
    using assms(6-8) assms(9) [rule_format, of ?t]
    by (auto simp: requested_file_def file_open_path_def file_open_errno_def sys_def)
  obtain c r' cc' ev where run:
    "http_prepare_response k request0 (Some b) len (Some r) (Some cc) root (Some cfg) tr =
      Some (c, Some r', Some cc', tr @ ev)" "prepared_as root ?d (Inl e) c r' cc' ev"
    using http_prepare_response_prepared [OF assms(1-5), of r cc root tr] e(1) by auto
  moreover from run(2) e(2) assms(6) have "(c = 0 \<or> c = -1) \<and> (c = 0 \<longrightarrow> cc' \<and>
      (\<forall>content. response_payload content r' = error_response HTTP_STATUS_FORBIDDEN None))"
    by (auto simp: prepared_as_def http_open_error_status_def)
  ultimately show ?thesis by blast
qed

theorem http_prepare_response_forbidden_witness:
  "\<exists>c r' cc' ev.
    http_prepare_response (\<lambda>t c. case c of Sys_openat2 d p h \<Rightarrow> answer_fails ELOOP | _ \<Rightarrow> answer_ok 0)
      blank_request (Some (example_request @ [NUL])) (length example_request) (Some fresh_response)
      (Some False) 4 (Some example_config) [] = Some (c, Some r', Some cc', [] @ ev) \<and>
    (c = 0 \<or> c = -1) \<and> (c = 0 \<longrightarrow> cc' \<and>
      (\<forall>content. response_payload content r' = error_response HTTP_STATUS_FORBIDDEN None))"
  by (rule http_prepare_response_forbidden [OF _ _ _ _ _ example_decides])
    (simp_all add: size_ok_def example_request_def stat_bounded_def)

text \<open>
  C38: A request for a path without an extension, such as a directory whose \<open>index.html\<close> is
  served, is answered with the content type \<open>application/octet-stream\<close>: the type comes from the
  path of the request and not from the file that was opened.
\<close>

theorem http_prepare_response_index_type:
  assumes "http_config_valid (Some cfg)" "len \<le> length b" "size_ok (len + 1)"
    and "length (rq_headers request0) = HTTP_MAX_HEADERS" "stat_bounded k"
    and "decide cfg (cstr (take len b)) cc = Serve w close" "CHR ''.'' \<notin> set (v_path w)"
    and "requested_file k root (Serve w close) len tr = Inr opened_file"
  shows "\<exists>c r' cc' ev.
    http_prepare_response k request0 (Some b) len (Some r) (Some cc) root (Some cfg) tr =
      Some (c, Some r', Some cc', tr @ ev) \<and> (c = 0 \<or> c = -1) \<and>
    (c = 0 \<longrightarrow> (\<forall>content. prefix
      (response_head HTTP_STATUS_OK ''application/octet-stream'' (f_size opened_file) (\<not> close))
      (response_payload content r')))"
proof -
  have m: "mime_type (v_path w) = ''application/octet-stream''"
    using assms(7) by (simp add: mime_type_def strrchr_None [THEN iffD2])
  obtain c r' cc' ev where run:
    "http_prepare_response k request0 (Some b) len (Some r) (Some cc) root (Some cfg) tr =
      Some (c, Some r', Some cc', tr @ ev)"
    "prepared_as root (Serve w close) (Inr opened_file) c r' cc' ev"
    using http_prepare_response_prepared [OF assms(1-5), of r cc root tr] assms(6,8) by auto
  moreover from run(2) m have "(c = 0 \<or> c = -1) \<and> (c = 0 \<longrightarrow> (\<forall>content. prefix
      (response_head HTTP_STATUS_OK ''application/octet-stream'' (f_size opened_file) (\<not> close))
      (response_payload content r')))"
    by (auto simp: prepared_as_def)
  ultimately show ?thesis by blast
qed

theorem http_prepare_response_index_type_witness:
  "\<exists>c r' cc' ev.
    http_prepare_response example_kernel blank_request (Some (''GET / HTTP/1.0'' @ CRLF @ CRLF @ [NUL])) 18
      (Some fresh_response) (Some False) 4 (Some example_config) [] =
      Some (c, Some r', Some cc', [] @ ev) \<and> (c = 0 \<or> c = -1) \<and>
    (c = 0 \<longrightarrow> (\<forall>content. prefix
      (response_head HTTP_STATUS_OK ''application/octet-stream'' (f_size \<lparr>f_fd = 7, f_size = 5\<rparr>) (\<not> True))
      (response_payload content r')))"
proof -
  let ?b = "''GET / HTTP/1.0'' @ CRLF @ CRLF @ [NUL]"
  let ?w = "\<lparr>v_method = ''GET'', v_path = ''/'', v_query = [], v_version = ''HTTP/1.0'', v_headers = []\<rparr>"
  have d: "decide example_config (cstr (take 18 ?b)) False = Serve ?w True" by code_simp
  show ?thesis
    by (rule http_prepare_response_index_type [OF _ _ _ _ _ d])
      (simp_all add: requested_file_def file_open_path_def malloc_def sys_def size_ok_def)
qed

text \<open>
  C23: The header block \<open>http_build_response_headers\<close> stores ends at its first empty line, whatever
  follows it on the wire, and its \<open>Content-Length\<close> is the decimal number of the length it was
  given: a client can tell where the headers end and how many bytes follow.
\<close>

theorem http_build_response_headers_framed:
  assumes "http_build_response_headers (Some b) cap status (Some ct) n ka = Some (len, Some b')" "0 \<le> len"
    and "CR \<notin> set ct"
  shows "header_end_spec (take (nat len) b' @ body) = Some (nat len) \<and>
    sublist (''Content-Length: '' @ fmt_d n @ CRLF) (take (nat len) b') \<and>
    list_all isdigit (fmt_d n) \<and> int (dec_val (fmt_d n)) = n"
proof -
  let ?h = "response_head status ct n ka"
  have n: "0 \<le> n" and l: "nat len = length ?h" "take (nat len) b' = ?h"
    using assms(1,2)
    by (auto simp: http_build_response_headers_def snprintf_def blit_def split: if_splits)
  have "?h = (''HTTP/1.1 '' @ fmt_d (http_status_code status) @ '' '' @ http_status_reason status @
      CRLF @ ''Content-Type: '' @ ct @ CRLF) @ (''Content-Length: '' @ fmt_d n @ CRLF) @
      (''Connection: '' @ (if ka then ''keep-alive'' else ''close'') @ CRLF @ CRLF)"
    by (simp add: response_head_def)
  then have "sublist (''Content-Length: '' @ fmt_d n @ CRLF) ?h" by (metis sublist_appendI)
  with response_head_end [OF n assms(3)] n l dec_str_props [of "nat n"] show ?thesis
    by (simp add: fmt_d_def)
qed

theorem http_build_response_headers_framed_witness:
  "header_end_spec (take 86 (response_head HTTP_STATUS_OK ''text/css'' 5 True @ [NUL]) @ ''body'') = Some 86"
proof -
  let ?h = "response_head HTTP_STATUS_OK ''text/css'' 5 True"
  have l: "length ?h = 86" by code_simp
  have "http_build_response_headers (Some (replicate 1024 NUL)) 1024 HTTP_STATUS_OK
      (Some ''text/css'') 5 True = Some (86, Some (overwritten (replicate 1024 NUL) ?h))"
    using http_build_response_headers_1024 [of 5 "''text/css''" "replicate 1024 NUL"] l by simp
  from http_build_response_headers_framed [OF this, of "''body''"] l show ?thesis
    by (simp add: overwritten_def)
qed

text \<open>
  C3: \<open>http_process_connection\<close> returns for every behaviour of the client and the kernel, and what
  it does follows the protocol: the complete requests in the buffer are answered one after the
  other, in order and each in full, until none is left or one closes the connection; the bytes
  behind the last one answered stay in the buffer. Where an answer breaks off, only a prefix of
  it went out and the code is \<open>-1\<close>.
\<close>

theorem http_process_connection_correct:
  assumes "fair_kernel k" "http_config_valid (Some cfg)"
    and "\<forall>t. length (rq_headers (request0 t)) = HTTP_MAX_HEADERS"
    and "connection_inv c" "size_ok (cn_buffer_capacity c + 1)" "\<not> cn_close_connection c"
  shows "\<exists>code c' ev close. http_process_connection k request0 (Some c) fd root (Some cfg) tr =
      Some (code, Some c', tr @ ev) \<and>
    connection_inv c' \<and> cn_buffer_capacity c' = cn_buffer_capacity c \<and>
    conversation cfg root fd (connection_contents c) ev code close (connection_contents c') \<and>
    (code = 0 \<longrightarrow> cn_close_connection c' = close)"
  using assms by (rule http_process_connection_follows)

theorem http_process_connection_correct_witness:
  "\<exists>code c' ev close. http_process_connection example_kernel (\<lambda>t. blank_request) (Some example_ready) 5 4
      (Some example_config) [] = Some (code, Some c', [] @ ev) \<and>
    connection_inv c' \<and> cn_buffer_capacity c' = cn_buffer_capacity example_ready \<and>
    conversation example_config 4 5 (connection_contents example_ready) ev code close (connection_contents c') \<and>
    (code = 0 \<longrightarrow> cn_close_connection c' = close)"
  by (rule http_process_connection_correct) simp_all

text \<open>
  C10: \<open>http_process_connection\<close> is safe: every file it opens lies beneath the document root, and
  where it returns 0 it has closed every file it opened, keeps only bytes the client sent, and
  has either decided to close the connection or left no complete request unanswered. It fails
  only where the kernel refused a call.
\<close>

theorem http_process_connection_safe:
  assumes "fair_kernel k" "http_config_valid (Some cfg)"
    and "\<forall>t. length (rq_headers (request0 t)) = HTTP_MAX_HEADERS"
    and "connection_inv c" "size_ok (cn_buffer_capacity c + 1)" "\<not> cn_close_connection c"
  shows "\<exists>code c' ev. http_process_connection k request0 (Some c) fd root (Some cfg) tr =
      Some (code, Some c', tr @ ev) \<and>
    confined [root] ev \<and> suffix (connection_contents c') (connection_contents c) \<and>
    (code = -1 \<and> list_ex (refused True) ev \<or> code = 0 \<and> opened ev = closed ev \<and>
       (cn_close_connection c' \<or> http_connection_request_ready (Some c') = Some False))"
proof -
  obtain code c' ev close where run: "http_process_connection k request0 (Some c) fd root (Some cfg) tr =
      Some (code, Some c', tr @ ev)" "connection_inv c'"
      "conversation cfg root fd (connection_contents c) ev code close (connection_contents c')"
      "code = 0 \<longrightarrow> cn_close_connection c' = close"
    using http_process_connection_follows [OF assms, of fd root tr] by blast
  with conversation_confined [OF run(3)] conversation_suffix [OF run(3)] conversation_code [OF run(3)]
    http_connection_ready_eq(1) [OF run(2)] show ?thesis by auto
qed

theorem http_process_connection_safe_witness:
  "\<exists>code c' ev. http_process_connection example_kernel (\<lambda>t. blank_request) (Some example_ready) 5 4
      (Some example_config) [] = Some (code, Some c', [] @ ev) \<and>
    confined [4] ev \<and> suffix (connection_contents c') (connection_contents example_ready) \<and>
    (code = -1 \<and> list_ex (refused True) ev \<or> code = 0 \<and> opened ev = closed ev \<and>
       (cn_close_connection c' \<or> http_connection_request_ready (Some c') = Some False))"
  by (rule http_process_connection_safe) simp_all

end
