(* ===== verification/Fork_Server.thy ===== *)
theory Fork_Server
  imports Http_Process
begin

text \<open>
  \<open>src/fork_server.c\<close>: what a child process does with its connection, from the first \<open>recv\<close> to
  the end, and the session protocol it implements.
\<close>

section \<open>The handler\<close>

text \<open>
  The loop of \<open>fork_server_handle_connection\<close>. Its result is \<open>result\<close> with the connection as the
  loop left it. What \<open>recv\<close> wrote is the initialised part of \<open>receive_buffer\<close>; it must fit the 4096
  bytes of the array, and nothing behind it may be read.
\<close>

partial_function (option) fork_server_loop ::
    "kernel \<Rightarrow> (trace \<Rightarrow> http_request_t) \<Rightarrow> http_connection_t \<Rightarrow> int \<Rightarrow> int \<Rightarrow> server_config_t \<Rightarrow> trace \<Rightarrow>
     (int \<times> http_connection_t \<times> trace) option" where
  [code]: "fork_server_loop k request0 connection client_fd root_fd config tr =
     (if cn_close_connection connection then Some (0, connection, tr)
      else
        (let remaining_capacity = http_connection_buffer_space (Some connection);
             receive_capacity = (if remaining_capacity < 4096 then remaining_capacity else 4096)
         in if receive_capacity = 0 then
              do {
                (s, tr') \<leftarrow> http_send_error k client_fd HTTP_STATUS_REQUEST_HEADER_FIELDS_TOO_LARGE
                              False tr;
                Some (-1, connection, tr')
              }
            else
              (case sys k (Sys_recv client_fd receive_capacity) tr of
                 (a, tr1) \<Rightarrow>
                   if a_ret a < 0 then
                     (if a_errno a = EINTR
                      then fork_server_loop k request0 connection client_fd root_fd config tr1
                      else if a_errno a = EAGAIN \<or> a_errno a = EWOULDBLOCK
                      then Some (-1, connection, tr1)
                      else Some (-1, connection, tr1))
                   else
                     do {
                       receive_buffer \<leftarrow> fill 4096 (a_data a);
                       if a_ret a = 0 then Some (0, connection, tr1)
                       else
                         do {
                           (f, fopt) \<leftarrow> http_connection_feed (Some connection)
                                           (Some receive_buffer) (nat (a_ret a));
                           conn1 \<leftarrow> fopt;
                           if f < 0 then
                             do {
                               (s, tr2) \<leftarrow> http_send_error k client_fd
                                             HTTP_STATUS_REQUEST_HEADER_FIELDS_TOO_LARGE False tr1;
                               Some (-1, conn1, tr2)
                             }
                           else
                             do {
                               (p, popt, tr2) \<leftarrow> http_process_connection k request0 (Some conn1)
                                                   client_fd root_fd (Some config) tr1;
                               conn2 \<leftarrow> popt;
                               (if p < 0 then Some (-1, conn2, tr2)
                                else fork_server_loop k request0 conn2 client_fd root_fd config tr2)
                             }
                         }
                     })))"

text \<open>
  \<open>connection0\<close> is the uninitialised struct on the stack. \<open>http_connection_destroy\<close> only releases
  memory at the end.
\<close>

definition fork_server_handle_connection ::
    "kernel \<Rightarrow> (trace \<Rightarrow> http_request_t) \<Rightarrow> http_connection_t \<Rightarrow> int \<Rightarrow> int \<Rightarrow> server_config_t option \<Rightarrow>
     trace \<Rightarrow> (int \<times> http_connection_t option \<times> trace) option" where
  "fork_server_handle_connection k request0 connection0 client_fd root_fd config tr =
     (case config of
        None \<Rightarrow> Some (-1, Some connection0, tr)
      | Some cfg \<Rightarrow>
          (case http_connection_init k (Some connection0) (http_buffer_size cfg) tr of
             (r, copt, tr1) \<Rightarrow>
               if r < 0 then Some (-1, copt, tr1)
               else
                 do {
                   c \<leftarrow> copt;
                   (result, c', tr2) \<leftarrow> fork_server_loop k request0 c client_fd root_fd cfg tr1;
                   Some (result, http_connection_destroy (Some c'), tr2)
                 }))"

section \<open>The session protocol\<close>

text \<open>
  \<open>session cfg root fd s ev code\<close>: a session that holds the bytes \<open>s\<close> of an incomplete request
  runs with the events \<open>ev\<close> to its end. A full buffer is answered with 431; whatever is
  received is appended and answered by the conversation, which hands back what it did not use.
\<close>

inductive session :: "server_config_t \<Rightarrow> int \<Rightarrow> int \<Rightarrow> bytes \<Rightarrow> trace \<Rightarrow> int \<Rightarrow> bool"
  for cfg root fd where
  overflow: "length s = http_buffer_size cfg \<Longrightarrow>
    (\<forall>content. sends content fd (error_response HTTP_STATUS_REQUEST_HEADER_FIELDS_TOO_LARGE None) r ev) \<Longrightarrow>
    session cfg root fd s ev (-1)"
| interrupt: "length s < http_buffer_size cfg \<Longrightarrow> interrupted a \<Longrightarrow> session cfg root fd s ev code \<Longrightarrow>
    session cfg root fd s ((Sys_recv fd n, a) # ev) code"
| lost: "length s < http_buffer_size cfg \<Longrightarrow> a_ret a < 0 \<Longrightarrow> a_errno a \<noteq> EINTR \<Longrightarrow>
    session cfg root fd s [(Sys_recv fd n, a)] (-1)"
| hung_up: "length s < http_buffer_size cfg \<Longrightarrow> 0 < n \<Longrightarrow> a_ret a = 0 \<Longrightarrow>
    session cfg root fd s [(Sys_recv fd n, a)] 0"
| failing: "length s + length (a_data a) \<le> http_buffer_size cfg \<Longrightarrow> 0 < a_ret a \<Longrightarrow>
    conversation cfg root fd (s @ a_data a) ev (-1) close rest \<Longrightarrow>
    session cfg root fd s ((Sys_recv fd n, a) # ev) (-1)"
| closing: "length s + length (a_data a) \<le> http_buffer_size cfg \<Longrightarrow> 0 < a_ret a \<Longrightarrow>
    conversation cfg root fd (s @ a_data a) ev 0 True rest \<Longrightarrow>
    session cfg root fd s ((Sys_recv fd n, a) # ev) 0"
| keep_alive: "length s + length (a_data a) \<le> http_buffer_size cfg \<Longrightarrow> 0 < a_ret a \<Longrightarrow>
    conversation cfg root fd (s @ a_data a) ev 0 False rest \<Longrightarrow>
    session cfg root fd rest ev' code \<Longrightarrow>
    session cfg root fd s ((Sys_recv fd n, a) # ev @ ev') code"

lemma confined_recv [simp]: "confined dirs ((Sys_recv s n, a) # tr) = confined dirs tr"
  by simp

lemma session_confined: "session cfg root fd s ev code \<Longrightarrow> confined [root] ev"
  by (induction rule: session.induct)
    (auto simp: confined_data_calls sends_def dest: conversation_confined intro: confined_append)

lemma session_code:
  "session cfg root fd s ev code \<Longrightarrow> code = -1 \<or> code = 0 \<and> opened ev = closed ev"
  by (induction rule: session.induct) (auto simp: trace_simps dest: conversation_code)

section \<open>The handler follows the session protocol\<close>

lemma http_send_error_431:
  assumes "fair_kernel k"
  shows "\<exists>c ev. http_send_error k fd HTTP_STATUS_REQUEST_HEADER_FIELDS_TOO_LARGE False tr =
      Some (c, tr @ ev) \<and>
    (\<forall>content. sends content fd (error_response HTTP_STATUS_REQUEST_HEADER_FIELDS_TOO_LARGE None) c ev)"
  using assms by (intro http_send_error_status) (simp_all add: fair_kernel_def)

text \<open>What the loop keeps between two turns.\<close>

definition session_inv :: "server_config_t \<Rightarrow> http_connection_t \<Rightarrow> bool" where
  "session_inv cfg c \<longleftrightarrow>
     connection_inv c \<and> cn_buffer_capacity c = http_buffer_size cfg \<and> \<not> cn_close_connection c"

lemma fork_server_step:
  fixes k cfg request0 fd root tr
  assumes inv: "session_inv cfg c" and room: "length (connection_contents c) < http_buffer_size cfg"
  defines "space \<equiv> http_buffer_size cfg - length (connection_contents c)"
  defines "cap \<equiv> (if space < 4096 then space else 4096)"
  defines "a \<equiv> k tr (Sys_recv fd cap)"
  defines "tr1 \<equiv> tr @ [(Sys_recv fd cap, a)]"
  assumes recv: "recv_bounded k"
  shows "a_ret a < 0 \<Longrightarrow> a_errno a = EINTR \<Longrightarrow>
      fork_server_loop k request0 c fd root cfg tr = fork_server_loop k request0 c fd root cfg tr1"
    and "a_ret a < 0 \<Longrightarrow> a_errno a \<noteq> EINTR \<Longrightarrow>
      fork_server_loop k request0 c fd root cfg tr = Some (-1, c, tr1)"
    and "a_ret a = 0 \<Longrightarrow> fork_server_loop k request0 c fd root cfg tr = Some (0, c, tr1)"
    and "0 < a_ret a \<Longrightarrow> \<exists>c1. session_inv cfg c1 \<and>
      connection_contents c1 = connection_contents c @ a_data a \<and>
      length (connection_contents c) + length (a_data a) \<le> http_buffer_size cfg \<and>
      fork_server_loop k request0 c fd root cfg tr =
        do {
          (p, popt, tr2) \<leftarrow> http_process_connection k request0 (Some c1) fd root (Some cfg) tr1;
          c2 \<leftarrow> popt;
          (if p < 0 then Some (-1, c2, tr2) else fork_server_loop k request0 c2 fd root cfg tr2)
        }"
proof -
  have ci: "connection_inv c" "cn_buffer_capacity c = http_buffer_size cfg" "\<not> cn_close_connection c"
    using inv by (auto simp: session_inv_def)
  have space: "http_connection_buffer_space (Some c) = space" "0 < space" "0 < cap" "cap \<le> space"
    using http_connection_space_eq [OF ci(1)] ci(2) room by (auto simp: space_def cap_def)
  note unfold = fork_server_loop.simps [of k request0 c fd root cfg tr, unfolded Let_def space(1),
      folded cap_def]
  have sysa: "sys k (Sys_recv fd cap) tr = (a, tr1)" by (simp add: sys_def a_def tr1_def)
  have "a_ret a \<le> int cap" "0 \<le> a_ret a \<Longrightarrow> length (a_data a) = nat (a_ret a)"
    using recv by (auto simp: recv_bounded_def a_def)
  then have fits_array: "0 \<le> a_ret a \<Longrightarrow> fill 4096 (a_data a) = Some (a_data a)"
    by (intro fill_Some) (auto simp: cap_def split: if_splits)
  show "a_ret a < 0 \<Longrightarrow> a_errno a = EINTR \<Longrightarrow>
      fork_server_loop k request0 c fd root cfg tr = fork_server_loop k request0 c fd root cfg tr1"
    and "a_ret a < 0 \<Longrightarrow> a_errno a \<noteq> EINTR \<Longrightarrow>
      fork_server_loop k request0 c fd root cfg tr = Some (-1, c, tr1)"
    and "a_ret a = 0 \<Longrightarrow> fork_server_loop k request0 c fd root cfg tr = Some (0, c, tr1)"
    using unfold space ci(3) fits_array by (simp_all add: sysa)
  assume pos: "0 < a_ret a"
  then have data: "length (a_data a) = nat (a_ret a)" "nat (a_ret a) \<le> cap"
    using recv by (auto simp: recv_bounded_def a_def nat_le_iff)
  have fits: "cn_buffer_used c + length (a_data a) \<le> cn_buffer_capacity c"
    using data space(4) room ci length_connection_contents [OF ci(1)] by (auto simp: space_def)
  obtain b' where feed: "http_connection_feed (Some c) (Some (a_data a)) (length (a_data a)) =
      Some (0, Some (c\<lparr>cn_buffer := Some b', cn_buffer_used := cn_buffer_used c + length (a_data a)\<rparr>))"
    "length b' = cn_buffer_capacity c"
    "take (cn_buffer_used c + length (a_data a)) b' = connection_contents c @ a_data a"
    using http_connection_feed_fits [OF ci(1) fits, of "[]"] by auto
  let ?c1 = "c\<lparr>cn_buffer := Some b', cn_buffer_used := cn_buffer_used c + length (a_data a)\<rparr>"
  have "session_inv cfg ?c1" "connection_contents ?c1 = connection_contents c @ a_data a"
    using feed(2,3) fits ci by (auto simp: session_inv_def connection_inv_def connection_contents_def)
  moreover have "fork_server_loop k request0 c fd root cfg tr =
        do {
          (p, popt, tr2) \<leftarrow> http_process_connection k request0 (Some ?c1) fd root (Some cfg) tr1;
          c2 \<leftarrow> popt;
          (if p < 0 then Some (-1, c2, tr2) else fork_server_loop k request0 c2 fd root cfg tr2)
        }"
    using unfold space ci(3) pos feed(1) fits_array by (simp add: sysa data(1))
  ultimately show "\<exists>c1. session_inv cfg c1 \<and>
      connection_contents c1 = connection_contents c @ a_data a \<and>
      length (connection_contents c) + length (a_data a) \<le> http_buffer_size cfg \<and>
      fork_server_loop k request0 c fd root cfg tr =
        do {
          (p, popt, tr2) \<leftarrow> http_process_connection k request0 (Some c1) fd root (Some cfg) tr1;
          c2 \<leftarrow> popt;
          (if p < 0 then Some (-1, c2, tr2) else fork_server_loop k request0 c2 fd root cfg tr2)
        }"
    using fits ci length_connection_contents [OF ci(1)] by (intro exI [of _ ?c1]) simp
qed

lemma fork_server_full:
  assumes "fair_kernel k" "session_inv cfg c" "length (connection_contents c) = http_buffer_size cfg"
  shows "\<exists>ev. fork_server_loop k request0 c fd root cfg tr = Some (-1, c, tr @ ev) \<and>
    session cfg root fd (connection_contents c) ev (-1)"
proof -
  have "http_connection_buffer_space (Some c) = 0"
    using assms(2,3) http_connection_space_eq [of c] by (simp add: session_inv_def)
  moreover obtain s ev where "http_send_error k fd HTTP_STATUS_REQUEST_HEADER_FIELDS_TOO_LARGE False tr =
      Some (s, tr @ ev)"
    "\<forall>content. sends content fd (error_response HTTP_STATUS_REQUEST_HEADER_FIELDS_TOO_LARGE None) s ev"
    using http_send_error_431 [OF assms(1)] by blast
  ultimately show ?thesis
    using assms(2,3) session.overflow [of "connection_contents c" cfg fd s ev root]
    by (subst fork_server_loop.simps) (auto simp: session_inv_def)
qed

text \<open>A turn that received data: the session ends, or goes on with the rest.\<close>

lemma fork_server_data:
  fixes k cfg request0 fd root tr c
  assumes k: "fair_kernel k" "recv_bounded k" and valid: "http_config_valid (Some cfg)"
    and rq0: "\<forall>t. length (rq_headers (request0 t)) = HTTP_MAX_HEADERS"
    and size: "size_ok (http_buffer_size cfg + 1)" and inv: "session_inv cfg c"
    and room: "length (connection_contents c) < http_buffer_size cfg"
  defines "space \<equiv> http_buffer_size cfg - length (connection_contents c)"
  defines "cap \<equiv> (if space < 4096 then space else 4096)"
  defines "a \<equiv> k tr (Sys_recv fd cap)"
  assumes pos: "0 < a_ret a"
  shows "(\<exists>code c' ev. fork_server_loop k request0 c fd root cfg tr = Some (code, c', tr @ ev) \<and>
      session cfg root fd (connection_contents c) ev code) \<or>
    (\<exists>c' ev. fork_server_loop k request0 c fd root cfg tr =
        fork_server_loop k request0 c' fd root cfg (tr @ (Sys_recv fd cap, a) # ev) \<and>
      session_inv cfg c' \<and>
      length (connection_contents c) + length (a_data a) \<le> http_buffer_size cfg \<and>
      conversation cfg root fd (connection_contents c @ a_data a) ev 0 False (connection_contents c'))"
proof -
  let ?s = "connection_contents c" and ?tr1 = "tr @ [(Sys_recv fd cap, a)]"
  obtain c1 where c1: "session_inv cfg c1" "connection_contents c1 = ?s @ a_data a"
    "length ?s + length (a_data a) \<le> http_buffer_size cfg"
    and run: "fork_server_loop k request0 c fd root cfg tr =
        do {
          (p, popt, tr2) \<leftarrow> http_process_connection k request0 (Some c1) fd root (Some cfg) ?tr1;
          c2 \<leftarrow> popt;
          (if p < 0 then Some (-1, c2, tr2) else fork_server_loop k request0 c2 fd root cfg tr2)
        }"
    using fork_server_step(4) [OF inv room k(2), of tr fd request0 root] pos
    unfolding a_def cap_def space_def by blast
  have ci: "connection_inv c1" "cn_buffer_capacity c1 = http_buffer_size cfg" "\<not> cn_close_connection c1"
    using c1(1) by (auto simp: session_inv_def)
  have size1: "size_ok (cn_buffer_capacity c1 + 1)" using size ci(2) by simp
  obtain code c2 ev close where proc: "http_process_connection k request0 (Some c1) fd root (Some cfg) ?tr1 =
      Some (code, Some c2, ?tr1 @ ev)" "connection_inv c2"
      "cn_buffer_capacity c2 = http_buffer_size cfg"
      "conversation cfg root fd (?s @ a_data a) ev code close (connection_contents c2)"
      "code = 0 \<longrightarrow> cn_close_connection c2 = close"
    using http_process_connection_follows [OF k(1) valid rq0 ci(1) size1 ci(3), of fd root ?tr1]
    unfolding c1(2) ci(2) by blast
  from conversation_code [OF proc(4)] consider "code = -1" | "code = 0" "close" | "code = 0" "\<not> close"
    by blast
  then show ?thesis
  proof cases
    case 1
    with run proc have "fork_server_loop k request0 c fd root cfg tr =
        Some (-1, c2, tr @ (Sys_recv fd cap, a) # ev)" by simp
    moreover have "session cfg root fd ?s ((Sys_recv fd cap, a) # ev) (-1)"
      using c1(3) pos proc(4) 1 by (auto intro: session.failing)
    ultimately show ?thesis by blast
  next
    case 2
    then have "fork_server_loop k request0 c2 fd root cfg (?tr1 @ ev) = Some (0, c2, ?tr1 @ ev)"
      using proc(5) by (subst fork_server_loop.simps) simp
    with 2 run proc have "fork_server_loop k request0 c fd root cfg tr =
        Some (0, c2, tr @ (Sys_recv fd cap, a) # ev)" by simp
    moreover have "session cfg root fd ?s ((Sys_recv fd cap, a) # ev) 0"
      using c1(3) pos proc(4) 2 by (auto intro: session.closing)
    ultimately show ?thesis by blast
  next
    case 3
    with run proc have "fork_server_loop k request0 c fd root cfg tr =
        fork_server_loop k request0 c2 fd root cfg (tr @ (Sys_recv fd cap, a) # ev)" by simp
    moreover have "session_inv cfg c2" using proc 3 by (simp add: session_inv_def)
    moreover have "conversation cfg root fd (?s @ a_data a) ev 0 False (connection_contents c2)"
      using proc(4) 3 by simp
    ultimately show ?thesis using c1(3) by blast
  qed
qed

lemma fork_server_loop_follows:
  assumes k: "fair_kernel k" "recv_bounded k" and valid: "http_config_valid (Some cfg)"
    and rq0: "\<forall>t. length (rq_headers (request0 t)) = HTTP_MAX_HEADERS"
    and size: "size_ok (http_buffer_size cfg + 1)" and stops: "client_stops k fd N"
    and "session_inv cfg c"
  shows "\<exists>code c' ev. fork_server_loop k request0 c fd root cfg tr = Some (code, c', tr @ ev) \<and>
    session cfg root fd (connection_contents c) ev code"
  using assms(7)
proof (induction "N - received fd tr" arbitrary: c tr rule: less_induct)
  case less
  let ?s = "connection_contents c"
  let ?goal = "\<lambda>t. \<exists>code c' ev. fork_server_loop k request0 c fd root cfg t = Some (code, c', t @ ev) \<and>
    session cfg root fd ?s ev code"
  have le: "length ?s \<le> http_buffer_size cfg"
    using less.prems conn.contents_fit [of c] by (auto simp: session_inv_def)
  show ?case
  proof (cases "length ?s = http_buffer_size cfg")
    case True
    then show ?thesis using fork_server_full [OF k(1) less.prems] by blast
  next
    case False
    with le have room: "length ?s < http_buffer_size cfg" by simp
    define space where "space = http_buffer_size cfg - length ?s"
    define cap where "cap = (if space < 4096 then space else 4096)"
    have "0 < cap" using room by (simp add: cap_def space_def)
    note step = fork_server_step [OF less.prems room k(2), folded space_def, folded cap_def]
    note data = fork_server_data [OF k valid rq0 size less.prems room, folded space_def, folded cap_def]
    have settled: "?goal t" if le: "received fd tr \<le> received fd t"
      and no: "\<not> interrupted (k t (Sys_recv fd cap))" for t
    proof -
      let ?a = "k t (Sys_recv fd cap)"
      consider "a_ret ?a < 0" "a_errno ?a \<noteq> EINTR" | "a_ret ?a = 0" | (got) "0 < a_ret ?a"
        using no by (force simp: interrupted_def)
      then show ?thesis
      proof cases
        case got
        with stops have N: "received fd t < N" unfolding client_stops_def by (meson not_le)
        from data [OF got, of root] show ?thesis
        proof (elim disjE exE conjE)
          fix c' ev
          assume run: "fork_server_loop k request0 c fd root cfg t =
              fork_server_loop k request0 c' fd root cfg (t @ (Sys_recv fd cap, ?a) # ev)"
            and c': "session_inv cfg c'"
            and conv: "length ?s + length (a_data ?a) \<le> http_buffer_size cfg"
              "conversation cfg root fd (?s @ a_data ?a) ev 0 False (connection_contents c')"
          let ?t = "t @ (Sys_recv fd cap, ?a) # ev"
          have "received fd ?t \<ge> received fd t + nat (a_ret ?a)" by (simp add: received_def)
          with got N le have "N - received fd ?t < N - received fd tr" by linarith
          from less.hyps [OF this c'] obtain code c2 ev2 where
            "fork_server_loop k request0 c' fd root cfg ?t = Some (code, c2, ?t @ ev2)"
            "session cfg root fd (connection_contents c') ev2 code" by blast
          with run session.keep_alive [OF conv(1) got conv(2)] show ?thesis by fastforce
        qed blast
      qed (use step(2,3) session.lost [OF room] session.hung_up [OF room \<open>0 < cap\<close>] in fastforce)+
    qed
    have fair: "retry_fair k" using k(1) by (simp add: fair_kernel_def)
    then have "received fd tr \<le> received fd t \<longrightarrow> ?goal t" for t
    proof (induction t rule: retry_induct [where c = "Sys_recv fd cap"])
      case (answered t)
      then show ?case using settled by blast
    next
      case (interrupted t)
      let ?t = "t @ [(Sys_recv fd cap, k t (Sys_recv fd cap))]"
      show ?case
      proof
        assume "received fd tr \<le> received fd t"
        then have "received fd tr \<le> received fd ?t" by (simp add: received_append)
        with interrupted.IH obtain code c' ev where
          "fork_server_loop k request0 c fd root cfg ?t = Some (code, c', ?t @ ev)"
          "session cfg root fd ?s ev code" by blast
        with interrupted.hyps step(1) [of t fd request0 root] session.interrupt [OF room]
        show "?goal t" by (fastforce simp: interrupted_def)
      qed
    qed
    then show ?thesis by blast
  qed
qed

text \<open>The whole handler: the allocation of the buffer, then a session from an empty buffer.\<close>

lemma fork_server_handle_connection_follows:
  assumes "fair_kernel k" "recv_bounded k" "http_config_valid (Some cfg)"
    and "\<forall>t. length (rq_headers (request0 t)) = HTTP_MAX_HEADERS"
    and "size_ok (http_buffer_size cfg + 1)" "client_stops k fd N"
  shows "\<exists>code c ev. fork_server_handle_connection k request0 connection0 fd root (Some cfg) tr =
      Some (code, c, tr @ ev) \<and>
    (\<exists>a ev'. ev = (Sys_malloc (http_buffer_size cfg), a) # ev' \<and>
       (if a_ret a < 0 then code = -1 \<and> ev' = [] else session cfg root fd [] ev' code))"
proof -
  let ?n = "http_buffer_size cfg"
  let ?a = "k tr (Sys_malloc ?n)"
  let ?t = "tr @ [(Sys_malloc ?n, ?a)]"
  have n: "0 < ?n" "size_ok ?n"
    using assms(3,5) by (auto simp: http_config_valid_def intro: size_ok_mono split: if_splits)
  show ?thesis
  proof (cases "a_ret ?a < 0")
    case True
    with n show ?thesis
      by (simp add: fork_server_handle_connection_def http_connection_init_def malloc_def sys_def)
  next
    case False
    obtain c where init: "http_connection_init k (Some connection0) ?n tr = (0, Some c, ?t)"
      using n False by (simp add: http_connection_init_def malloc_def sys_def)
    have c: "session_inv cfg c" "connection_contents c = []"
      using http_connection_init_ok [OF init n(2)] by (auto simp: session_inv_def)
    obtain code c' ev where "fork_server_loop k request0 c fd root cfg ?t = Some (code, c', ?t @ ev)"
      "session cfg root fd [] ev code"
      using fork_server_loop_follows [OF assms c(1), of root ?t] c(2) by auto
    with init False show ?thesis by (simp add: fork_server_handle_connection_def)
  qed
qed

lemma handler_outcome:
  assumes "fork_server_handle_connection k request0 connection0 fd root (Some cfg) tr =
      Some (code, c, tr @ (Sys_malloc n, a) # ev')"
    and "if a_ret a < 0 then code = -1 \<and> ev' = [] else session cfg root fd [] ev' code"
  shows "confined [root] ((Sys_malloc n, a) # ev') \<and>
    (code = -1 \<or> code = 0 \<and> opened ((Sys_malloc n, a) # ev') = closed ((Sys_malloc n, a) # ev'))"
  using assms(2) session_confined session_code by (fastforce simp: trace_simps split: if_splits)

section \<open>A configuration the handler refuses\<close>

text \<open>Events of a process that only allocates and listens: nothing goes out, nothing is opened.\<close>

fun idle_call :: "syscall \<Rightarrow> bool" where
  "idle_call (Sys_malloc n) = True"
| "idle_call (Sys_recv s n) = True"
| "idle_call _ = False"

abbreviation idle :: "trace \<Rightarrow> bool" where
  "idle ev \<equiv> list_all (\<lambda>e. idle_call (fst e)) ev"

lemma idle_neutral: "idle ev \<Longrightarrow> silent ev \<and> confined dirs ev \<and> opened ev = {#} \<and> closed ev = {#}"
proof (induction ev)
  case Nil
  then show ?case by (simp add: trace_simps)
next
  case (Cons e ev)
  obtain c a where "e = (c, a)" by (cases e)
  with Cons show ?case by (cases c) (simp_all add: trace_simps silent_Cons)
qed

lemma fork_server_loop_refuses:
  assumes "retry_fair k" "recv_bounded k" "\<not> http_config_valid (Some cfg)" "session_inv cfg c"
    and "length (connection_contents c) < http_buffer_size cfg"
  shows "\<exists>code c' ev. fork_server_loop k request0 c fd root cfg tr = Some (code, c', tr @ ev) \<and>
    (code = -1 \<or> code = 0) \<and> idle ev"
proof -
  define space where "space = http_buffer_size cfg - length (connection_contents c)"
  define cap where "cap = (if space < 4096 then space else 4096)"
  note step = fork_server_step [OF assms(4,5,2), folded space_def, folded cap_def]
  let ?c = "Sys_recv fd cap"
  from assms(1) show ?thesis
  proof (induction tr rule: retry_induct [where c = ?c])
    case (answered t)
    let ?a = "k t ?c"
    consider "a_ret ?a < 0" "a_errno ?a \<noteq> EINTR" | "a_ret ?a = 0" | (got) "0 < a_ret ?a"
      using answered by (force simp: interrupted_def)
    then show ?case
    proof cases
      case got
      from step(4) [OF this, of request0 root] assms(3) show ?thesis
        by (auto simp: http_process_connection_def intro!: exI [of _ "[(?c, ?a)]"])
    qed (use step(2,3) [of t fd request0 root] in
        \<open>auto intro!: exI [of _ "[(?c, ?a)]"]\<close>)
  next
    case (interrupted t)
    then obtain code c' ev where
      "fork_server_loop k request0 c fd root cfg (t @ [(?c, k t ?c)]) =
        Some (code, c', (t @ [(?c, k t ?c)]) @ ev)" "code = -1 \<or> code = 0" "idle ev" by blast
    with step(1) [of t fd request0 root] interrupted.hyps show ?case
      by (intro exI [of _ code] exI [of _ c'] exI [of _ "(?c, k t ?c) # ev"])
        (simp add: interrupted_def)
  qed
qed

lemma fork_server_handle_refuses:
  assumes "retry_fair k" "recv_bounded k" "config_ranges cfg" "\<not> http_config_valid (Some cfg)"
  shows "\<exists>code c ev. fork_server_handle_connection k request0 connection0 fd root (Some cfg) tr =
      Some (code, c, tr @ ev) \<and> (code = -1 \<or> code = 0) \<and> idle ev"
proof -
  let ?n = "http_buffer_size cfg"
  let ?a = "k tr (Sys_malloc ?n)"
  let ?t = "tr @ [(Sys_malloc ?n, ?a)]"
  have n: "0 < ?n" "size_ok ?n" using assms(3) by (auto simp: config_ranges_def size_ok_def INT_MAX_def)
  show ?thesis
  proof (cases "a_ret ?a < 0")
    case True
    with n show ?thesis
      by (auto simp: fork_server_handle_connection_def http_connection_init_def malloc_def sys_def
          intro!: exI [of _ "[(Sys_malloc ?n, ?a)]"])
  next
    case False
    obtain c where init: "http_connection_init k (Some connection0) ?n tr = (0, Some c, ?t)"
      using n False by (simp add: http_connection_init_def malloc_def sys_def)
    have c: "session_inv cfg c" "connection_contents c = []"
      using http_connection_init_ok [OF init n(2)] by (auto simp: session_inv_def)
    obtain code c' ev where "fork_server_loop k request0 c fd root cfg ?t = Some (code, c', ?t @ ev)"
      "code = -1 \<or> code = 0" "idle ev"
      using fork_server_loop_refuses [OF assms(1,2,4) c(1), of request0 fd root ?t] c(2) n(1) by auto
    with init False show ?thesis
      by (auto simp: fork_server_handle_connection_def
          intro!: exI [of _ "(Sys_malloc ?n, ?a) # ev"])
  qed
qed

text \<open>Whatever the configuration the command line has accepted, the handler is safe.\<close>

lemma handler_safe:
  assumes "fair_kernel k" "recv_bounded k" "config_ranges cfg"
    and "\<forall>t. length (rq_headers (request0 t)) = HTTP_MAX_HEADERS" "client_stops k fd N"
  shows "\<exists>code c ev. fork_server_handle_connection k request0 connection0 fd root (Some cfg) tr =
      Some (code, c, tr @ ev) \<and> confined [root] ev \<and> (code = -1 \<or> code = 0 \<and> opened ev = closed ev)"
proof (cases "http_config_valid (Some cfg)")
  case True
  have size: "size_ok (http_buffer_size cfg + 1)"
    using assms(3) by (auto simp: config_ranges_def size_ok_def INT_MAX_def)
  obtain code c a ev' where run: "fork_server_handle_connection k request0 connection0 fd root (Some cfg) tr =
      Some (code, c, tr @ (Sys_malloc (http_buffer_size cfg), a) # ev')"
    "if a_ret a < 0 then code = -1 \<and> ev' = [] else session cfg root fd [] ev' code"
    using fork_server_handle_connection_follows [OF assms(1,2) True assms(4) size assms(5), of connection0 root tr]
    by blast
  from run(1) handler_outcome [OF run] show ?thesis by blast
next
  case False
  have "retry_fair k" using assms(1) by (simp add: fair_kernel_def)
  from fork_server_handle_refuses [OF this assms(2,3) False] obtain code c ev where
    "fork_server_handle_connection k request0 connection0 fd root (Some cfg) tr = Some (code, c, tr @ ev)"
    "code = -1 \<or> code = 0" "idle ev" by blast
  with idle_neutral [of ev "[root]"] show ?thesis by auto
qed

section \<open>Properties\<close>

text \<open>
  C2: The handler of a connection returns for every behaviour of the kernel and of a client that
  sends finitely many bytes, and it implements the session protocol: bytes are received into the
  free space only, complete requests are answered as the conversation says, a buffer that fills
  without a complete request is answered with 431, and errors, time-outs and the end of the
  stream end the session with the code the protocol gives.
\<close>

theorem fork_server_correct:
  assumes "fair_kernel k" "recv_bounded k" "http_config_valid (Some cfg)"
    and "\<forall>t. length (rq_headers (request0 t)) = HTTP_MAX_HEADERS"
    and "size_ok (http_buffer_size cfg + 1)" "client_stops k fd N"
  shows "\<exists>code c ev. fork_server_handle_connection k request0 connection0 fd root (Some cfg) tr =
      Some (code, c, tr @ ev) \<and>
    (\<exists>a ev'. ev = (Sys_malloc (http_buffer_size cfg), a) # ev' \<and>
       (if a_ret a < 0 then code = -1 \<and> ev' = [] else session cfg root fd [] ev' code))"
  using assms by (rule fork_server_handle_connection_follows)

lemma example_buffer_size [simp]: "size_ok (Suc (http_buffer_size example_config))"
  by (simp add: example_config_def size_ok_def)

theorem fork_server_correct_witness:
  "\<exists>code c ev. fork_server_handle_connection example_kernel (\<lambda>t. blank_request) example_connection 5 4
      (Some example_config) [] = Some (code, c, [] @ ev) \<and>
    (\<exists>a ev'. ev = (Sys_malloc (http_buffer_size example_config), a) # ev' \<and>
       (if a_ret a < 0 then code = -1 \<and> ev' = [] else session example_config 4 5 [] ev' code))"
  by (rule fork_server_correct [where N = "length example_request"]) simp_all

text \<open>
  C11: Over the whole life of a connection, whatever the client sends, every file the handler opens
  lies beneath the document root with symbolic links refused, and where it returns 0 it has
  closed every descriptor it opened.
\<close>

theorem fork_server_safe:
  assumes "fair_kernel k" "recv_bounded k" "http_config_valid (Some cfg)"
    and "\<forall>t. length (rq_headers (request0 t)) = HTTP_MAX_HEADERS"
    and "size_ok (http_buffer_size cfg + 1)" "client_stops k fd N"
  shows "\<exists>code c ev. fork_server_handle_connection k request0 connection0 fd root (Some cfg) tr =
      Some (code, c, tr @ ev) \<and> confined [root] ev \<and> (code = -1 \<or> code = 0 \<and> opened ev = closed ev)"
proof -
  obtain code c a ev' where run: "fork_server_handle_connection k request0 connection0 fd root (Some cfg) tr =
      Some (code, c, tr @ (Sys_malloc (http_buffer_size cfg), a) # ev')"
    "if a_ret a < 0 then code = -1 \<and> ev' = [] else session cfg root fd [] ev' code"
    using fork_server_handle_connection_follows [OF assms, of connection0 root tr] by blast
  from run(1) handler_outcome [OF run] show ?thesis by blast
qed

theorem fork_server_safe_witness:
  "\<exists>code c ev. fork_server_handle_connection example_kernel (\<lambda>t. blank_request) example_connection 5 4
      (Some example_config) [] = Some (code, c, [] @ ev) \<and> confined [4] ev \<and>
    (code = -1 \<or> code = 0 \<and> opened ev = closed ev)"
  by (rule fork_server_safe [where N = "length example_request"]) simp_all

text \<open>
  C26: A client that fills the buffer without completing a request is sent the whole 431 response (a
  prefix of it only where a call was refused) and nothing else, and the handler ends with an error.
\<close>

theorem fork_server_overflow:
  assumes "fair_kernel k" "session_inv cfg c"
    and "length (connection_contents c) = http_buffer_size cfg"
  shows "\<exists>ev. fork_server_loop k request0 c fd root cfg tr = Some (-1, c, tr @ ev) \<and>
    (\<exists>r. \<forall>content. sends content fd
       (error_response HTTP_STATUS_REQUEST_HEADER_FIELDS_TOO_LARGE None) r ev)"
proof -
  have "http_connection_buffer_space (Some c) = 0"
    using assms(2,3) http_connection_space_eq [of c] by (simp add: session_inv_def)
  moreover obtain r ev where "http_send_error k fd HTTP_STATUS_REQUEST_HEADER_FIELDS_TOO_LARGE False tr =
      Some (r, tr @ ev)"
    "\<forall>content. sends content fd (error_response HTTP_STATUS_REQUEST_HEADER_FIELDS_TOO_LARGE None) r ev"
    using http_send_error_431 [OF assms(1)] by blast
  ultimately show ?thesis
    using assms(2) by (subst fork_server_loop.simps) (auto simp: session_inv_def)
qed

definition full_connection :: http_connection_t where
  "full_connection = example_connection\<lparr>cn_buffer := Some ''ab'', cn_buffer_capacity := 2\<rparr>"

theorem fork_server_overflow_witness:
  "\<exists>ev. fork_server_loop example_kernel (\<lambda>t. blank_request) full_connection 5 4
      (example_config\<lparr>http_buffer_size := 2\<rparr>) [] = Some (-1, full_connection, [] @ ev) \<and>
    (\<exists>r. \<forall>content. sends content 5
       (error_response HTTP_STATUS_REQUEST_HEADER_FIELDS_TOO_LARGE None) r ev)"
  by (rule fork_server_overflow)
    (simp_all add: session_inv_def connection_inv_def connection_contents_def full_connection_def
      example_connection_def size_ok_def)

text \<open>
  C27: With a configuration that the command line accepts but \<open>http_config_valid\<close> does not (a limit
  above the compile-time maximum), the handler never sends a byte: every connection is dropped
  without an answer, whatever the client asks for.
\<close>

theorem fork_server_refuses_config:
  assumes "retry_fair k" "recv_bounded k" "config_ranges cfg" "\<not> http_config_valid (Some cfg)"
  shows "\<exists>code c ev. fork_server_handle_connection k request0 connection0 fd root (Some cfg) tr =
      Some (code, c, tr @ ev) \<and> silent ev \<and> opened ev = {#}"
  using fork_server_handle_refuses [OF assms, of request0 connection0 fd root tr] idle_neutral by blast

theorem fork_server_refuses_config_witness:
  "\<exists>code c ev. fork_server_handle_connection example_kernel (\<lambda>t. blank_request) example_connection 5 4
      (Some (example_config\<lparr>http_max_headers := 65\<rparr>)) [] = Some (code, c, [] @ ev) \<and>
    silent ev \<and> opened ev = {#}"
  by (rule fork_server_refuses_config)
    (simp_all add: config_ranges_def example_config_def INT_MAX_def http_config_valid_def http_limits)

end
