(* ===== verification/Main_Program.thy ===== *)
theory Main_Program
  imports Server Fork_Server
begin

text \<open>
  \<open>src/main.c\<close>: the parent that accepts connections and forks, and the child that serves one of
  them. A process is described by its own kernel; after \<open>fork\<close> the child runs with a trace that
  starts with the parent's and the answer \<open>0\<close>.
\<close>

section \<open>The signal handler\<close>

partial_function (option) reap_children :: "kernel \<Rightarrow> trace \<Rightarrow> trace option" where
  [code]: "reap_children k tr =
     (case sys k Sys_waitpid tr of
        (a, tr') \<Rightarrow> if a_ret a > 0 then reap_children k tr' else Some tr')"

section \<open>main\<close>

text \<open>The part of \<open>main\<close> before the loop: \<open>Inl\<close> is its exit status.\<close>

definition EXIT_SUCCESS :: int where "EXIT_SUCCESS = 0"
definition EXIT_FAILURE :: int where "EXIT_FAILURE = 1"

definition main_setup ::
    "kernel \<Rightarrow> server_t \<Rightarrow> server_config_t \<Rightarrow> bytes list \<Rightarrow> trace \<Rightarrow>
     (int + server_t \<times> server_config_t) \<times> trace" where
  "main_setup k server0 config0 argv tr =
     (case sys k Sys_sigaction tr of
        (a, tr1) \<Rightarrow>
          if a_ret a < 0 then (Inl EXIT_FAILURE, tr1)
          else
            (case config_parse_args (config_init config0) argv of
               (r, config) \<Rightarrow>
                 if r < 0 then (Inl EXIT_FAILURE, tr1)
                 else
                   (case server_init k server0 config tr1 of
                      (i, server, tr2) \<Rightarrow>
                        if i < 0 then (Inl EXIT_FAILURE, tr2)
                        else
                          (case server_start k server tr2 of
                             (s, tr3) \<Rightarrow>
                               if s < 0
                               then (Inl EXIT_FAILURE, snd (server_destroy k server tr3))
                               else (Inr (server, config), tr3)))))"

text \<open>
  One turn of the loop as the parent runs it. The second component is the descriptor of the
  client and the trace with which a child starts, where there is one.
\<close>

definition main_turn ::
    "kernel \<Rightarrow> server_t \<Rightarrow> server_config_t \<Rightarrow> trace \<Rightarrow> trace \<times> (int \<times> trace) option" where
  "main_turn k server config tr =
     (case server_accept k server (client_timeout config) tr of
        (client_fd, tr1) \<Rightarrow>
          if client_fd < 0 then (tr1, None)
          else
            (case sys k Sys_fork tr1 of
               (a, tr2) \<Rightarrow>
                 if a_ret a < 0 then (close_fd k client_fd tr2, None)
                 else (close_fd k client_fd tr2,
                       Some (client_fd, tr1 @ [(Sys_fork, a\<lparr>a_ret := 0\<rparr>)]))))"

text \<open>The child: its exit status and its trace. \<open>None\<close> would be undefined behaviour or no end.\<close>

definition main_child ::
    "kernel \<Rightarrow> (trace \<Rightarrow> http_request_t) \<Rightarrow> http_connection_t \<Rightarrow> server_t \<Rightarrow> server_config_t \<Rightarrow> int \<Rightarrow>
     trace \<Rightarrow> (int \<times> trace) option" where
  "main_child k request0 connection0 server config client_fd tr =
     (let tr1 = close_fd k (sv_fd server) tr
      in do {
           (r, c, tr2) \<leftarrow> fork_server_handle_connection k request0 connection0 client_fd
                            (sv_root_fd server) (Some config) tr1;
           (if r < 0 then Some (EXIT_FAILURE, close_fd k client_fd tr2)
            else Some (EXIT_SUCCESS, close_fd k client_fd tr2))
         })"

section \<open>The parent as a transition system\<close>

text \<open>
  A state of the parent inside its loop: its server and configuration, its trace, and the
  children it has forked. \<open>turn\<close> is a turn of the loop, \<open>sigchld\<close> a signal between two turns.
\<close>

record parent_state =
  ps_server :: server_t
  ps_config :: server_config_t
  ps_trace :: trace
  ps_children :: "(int \<times> trace) list"

inductive parent_step :: "kernel \<Rightarrow> parent_state \<Rightarrow> parent_state \<Rightarrow> bool" for k where
  turn: "main_turn k (ps_server s) (ps_config s) (ps_trace s) = (tr, None) \<Longrightarrow>
    parent_step k s (s\<lparr>ps_trace := tr\<rparr>)"
| forked: "main_turn k (ps_server s) (ps_config s) (ps_trace s) = (tr, Some child) \<Longrightarrow>
    parent_step k s (s\<lparr>ps_trace := tr, ps_children := ps_children s @ [child]\<rparr>)"
| sigchld: "reap_children k (ps_trace s) = Some tr \<Longrightarrow> parent_step k s (s\<lparr>ps_trace := tr\<rparr>)"

inductive parent_reachable ::
    "kernel \<Rightarrow> server_t \<Rightarrow> server_config_t \<Rightarrow> bytes list \<Rightarrow> parent_state \<Rightarrow> bool"
  for k server0 config0 argv where
  start: "main_setup k server0 config0 argv [] = (Inr (server, config), tr) \<Longrightarrow>
    parent_reachable k server0 config0 argv
      \<lparr>ps_server = server, ps_config = config, ps_trace = tr, ps_children = []\<rparr>"
| step: "parent_reachable k server0 config0 argv s \<Longrightarrow> parent_step k s s' \<Longrightarrow>
    parent_reachable k server0 config0 argv s'"

inductive_cases parent_stepE: "parent_step k s s'"
inductive_simps parent_step_iff: "parent_step k s s'"

section \<open>Descriptors of the parent and its children\<close>

lemma reap_children_neutral:
  assumes "reap_children k tr = Some tr'"
  shows "\<exists>ev. tr' = tr @ ev \<and> opened ev = {#} \<and> closed ev = {#}"
proof (rule reap_children.raw_induct [OF _ assms])
  fix f k tr tr'
  assume IH: "\<And>k tr tr'. f k tr = Some tr' \<Longrightarrow> \<exists>ev. tr' = tr @ ev \<and> opened ev = {#} \<and> closed ev = {#}"
    and run: "(case sys k Sys_waitpid tr of
      (a, tr1) \<Rightarrow> if 0 < a_ret a then f k tr1 else Some tr1) = Some tr'"
  obtain a where a: "sys k Sys_waitpid tr = (a, tr @ [(Sys_waitpid, a)])" by (rule sys_event)
  show "\<exists>ev. tr' = tr @ ev \<and> opened ev = {#} \<and> closed ev = {#}"
  proof (cases "0 < a_ret a")
    case True
    with run a IH [of k "tr @ [(Sys_waitpid, a)]" tr'] obtain ev where
      "tr' = tr @ (Sys_waitpid, a) # ev" "opened ev = {#}" "closed ev = {#}" by auto
    then show ?thesis by (intro exI [of _ "(Sys_waitpid, a) # ev"]) (simp add: trace_simps)
  next
    case False
    with run a show ?thesis by (intro exI [of _ "[(Sys_waitpid, a)]"]) (simp add: trace_simps)
  qed
qed

lemma reap_children_holds: "reap_children k tr = Some tr' \<Longrightarrow> holds tr fds \<Longrightarrow> holds tr' fds"
  by (drule reap_children_neutral) (auto simp: holds_def trace_simps)

text \<open>The calls of the handler, exactly: all up to the first that reports no child.\<close>

lemma reap_children_reaps:
  assumes "\<not> a_ret (k (retried k Sys_waitpid n tr) Sys_waitpid) > 0"
  shows "\<exists>m \<le> n. reap_children k tr = Some (retried k Sys_waitpid (Suc m) tr) \<and>
    (\<forall>i < m. a_ret (k (retried k Sys_waitpid i tr) Sys_waitpid) > 0) \<and>
    \<not> a_ret (k (retried k Sys_waitpid m tr) Sys_waitpid) > 0"
  using assms
proof (induction n arbitrary: tr)
  case 0
  then show ?case by (subst reap_children.simps) (simp add: sys_def)
next
  case (Suc n)
  let ?t = "tr @ [(Sys_waitpid, k tr Sys_waitpid)]"
  show ?case
  proof (cases "a_ret (k tr Sys_waitpid) > 0")
    case True
    have "\<not> a_ret (k (retried k Sys_waitpid n ?t) Sys_waitpid) > 0" using Suc.prems by simp
    from Suc.IH [OF this] obtain m where m: "m \<le> n" "reap_children k ?t = Some (retried k Sys_waitpid (Suc m) ?t)"
      "\<forall>i < m. a_ret (k (retried k Sys_waitpid i ?t) Sys_waitpid) > 0"
      "\<not> a_ret (k (retried k Sys_waitpid m ?t) Sys_waitpid) > 0" by blast
    have "reap_children k tr = reap_children k ?t"
      using True by (subst reap_children.simps) (simp add: sys_def)
    with m True show ?thesis by (intro exI [of _ "Suc m"]) (auto simp: less_Suc_eq_0_disj)
  next
    case False
    then show ?thesis by (intro exI [of _ 0], subst reap_children.simps) (simp add: sys_def)
  qed
qed

lemma retried_waitpid:
  "opened (retried k Sys_waitpid n tr) = opened tr \<and> closed (retried k Sys_waitpid n tr) = closed tr"
  by (induction n arbitrary: tr) (simp_all add: trace_simps)

definition server_open :: "server_t \<Rightarrow> bool" where
  "server_open s \<longleftrightarrow> 0 \<le> sv_fd s \<and> 0 \<le> sv_root_fd s"

lemma config_args_loop_code: "fst (config_args_loop config args) \<in> {0, -1}"
proof (induction config args rule: config_args_loop.induct)
  case (3 config opt val rest)
  have "fst (config_option config opt val) \<in> {0, -1}"
    by (simp add: config_option_def parse_positive_int_def parse_positive_size_def
        split: prod.split)
  with 3 show ?case by (auto split: prod.splits)
qed simp_all

lemma config_parse_args_code: "config_parse_args config argv = (r, c) \<Longrightarrow> r = 0 \<or> r = -1"
  using config_args_loop_code [of config "drop 1 argv"] by (auto simp: config_parse_args_def)

lemma holds_sigaction: "holds [(Sys_sigaction, a)] {#}"
  by (simp add: holds_def trace_simps)

lemma main_setup_holds:
  assumes "main_setup k server0 config0 argv [] = (res, tr)"
  shows "(\<exists>server config. res = Inr (server, config) \<and> server_open server \<and>
      holds tr {#sv_fd server, sv_root_fd server#} \<and> sv_port server = port config \<and>
      sv_backlog server = backlog config \<and> config_parse_args (config_init config0) argv = (0, config))
    \<or> res = Inl EXIT_FAILURE \<and> holds tr {#}"
proof -
  let ?a = "k [] Sys_sigaction"
  let ?t1 = "[(Sys_sigaction, ?a)]"
  obtain r config where args: "config_parse_args (config_init config0) argv = (r, config)" by fastforce
  obtain i server t2 where init: "server_init k server0 config ?t1 = (i, server, t2)"
    by (cases "server_init k server0 config ?t1") auto
  obtain st t3 where start: "server_start k server t2 = (st, t3)" by fastforce
  obtain s4 t4 where destroy: "server_destroy k server t3 = (s4, t4)" by fastforce
  have run: "main_setup k server0 config0 argv [] =
    (if a_ret ?a < 0 \<or> r < 0 then (Inl EXIT_FAILURE, ?t1)
     else if i < 0 then (Inl EXIT_FAILURE, t2)
     else if st < 0 then (Inl EXIT_FAILURE, t4)
     else (Inr (server, config), t3))"
    by (simp add: main_setup_def sys_def args init start destroy)
  have code: "r = 0 \<or> r = -1" using config_parse_args_code [OF args] .
  have h: "i = 0 \<and> 0 \<le> sv_fd server \<and> 0 \<le> sv_root_fd server \<and> sv_port server = port config \<and>
      sv_backlog server = backlog config \<and> holds t2 ({#sv_fd server, sv_root_fd server#} + {#}) \<or>
    i = -1 \<and> sv_fd server < 0 \<and> sv_root_fd server < 0 \<and> holds t2 {#}"
    using server_init_holds [OF init holds_sigaction] .
  then show ?thesis
  proof (elim disjE conjE)
    assume "i = -1" "holds t2 {#}"
    with run assms holds_sigaction show ?thesis by (auto split: if_splits)
  next
    assume i: "i = 0" and fds: "0 \<le> sv_fd server" "0 \<le> sv_root_fd server"
      and eqs: "sv_port server = port config" "sv_backlog server = backlog config"
      and t2: "holds t2 ({#sv_fd server, sv_root_fd server#} + {#})"
    from server_start_holds [OF start t2]
    have t3: "holds t3 ({#sv_fd server, sv_root_fd server#} + {#})" by simp
    from server_destroy_holds [OF destroy fds t3] have "holds t4 {#}" by simp
    with run assms i fds eqs t3 args code holds_sigaction show ?thesis
      by (auto simp: server_open_def split: if_splits)
  qed
qed

lemma main_turn_holds:
  assumes "main_turn k server config tr = (tr', child)" "holds tr fds"
  shows "holds tr' fds \<and> (\<forall>client ctr. child = Some (client, ctr) \<longrightarrow>
    0 \<le> client \<and> holds ctr (add_mset client fds))"
proof -
  obtain c t1 where acc: "server_accept k server (client_timeout config) tr = (c, t1)" by fastforce
  from server_accept_holds [OF acc assms(2)] show ?thesis
  proof (elim disjE conjE)
    assume "c = -1" "holds t1 fds"
    with acc assms(1) show ?thesis by (auto simp: main_turn_def)
  next
    assume c: "0 \<le> c" and t1: "holds t1 (add_mset c fds)"
    let ?a = "k t1 Sys_fork"
    have t2: "holds (t1 @ [(Sys_fork, a)]) (add_mset c fds)" for a
      using holds_open [OF t1, of "(Sys_fork, a)"] by simp
    have "holds (close_fd k c (t1 @ [(Sys_fork, ?a)])) fds" using t2 by (rule holds_close)
    with c acc assms(1) t2 show ?thesis
      by (auto simp: main_turn_def sys_def Let_def split: if_splits)
  qed
qed

text \<open>
  The invariant of the parent: apart from the listening socket and the document root it holds no
  descriptor, whatever \<open>accept\<close>, \<open>setsockopt\<close>, \<open>fork\<close> and the signals do; and each child starts
  with these two and its client.
\<close>

definition parent_inv :: "parent_state \<Rightarrow> bool" where
  "parent_inv s \<longleftrightarrow>
     server_open (ps_server s) \<and>
     holds (ps_trace s) {#sv_fd (ps_server s), sv_root_fd (ps_server s)#} \<and>
     (\<forall>(client, ctr) \<in> set (ps_children s).
        0 \<le> client \<and> holds ctr {#client, sv_fd (ps_server s), sv_root_fd (ps_server s)#})"

lemma parent_step_inv: "parent_step k s s' \<Longrightarrow> parent_inv s \<Longrightarrow> parent_inv s'"
  by (erule parent_stepE)
    (auto simp: parent_inv_def dest!: main_turn_holds reap_children_holds)

lemma parent_step_frame:
  "parent_step k s s' \<Longrightarrow> ps_server s' = ps_server s \<and> ps_config s' = ps_config s"
  by (erule parent_stepE) auto

lemma parent_reachable_inv:
  assumes "parent_reachable k server0 config0 argv s"
  shows "parent_inv s \<and> sv_port (ps_server s) = port (ps_config s) \<and>
    config_parse_args (config_init config0) argv = (0, ps_config s)"
  using assms
proof induction
  case (start server config tr)
  from main_setup_holds [OF start] show ?case by (simp add: parent_inv_def)
next
  case (step s s')
  then show ?case using parent_step_inv parent_step_frame by metis
qed

section \<open>The child\<close>

lemma main_child_runs:
  assumes "fair_kernel k" "recv_bounded k" "config_ranges cfg"
    and "\<forall>t. length (rq_headers (request0 t)) = HTTP_MAX_HEADERS" "client_stops k client N"
    and "holds tr {#client, sv_fd server, sv_root_fd server#}"
  shows "\<exists>status ev. main_child k request0 connection0 server cfg client tr = Some (status, tr @ ev) \<and>
    confined [sv_root_fd server] ev \<and>
    (status = EXIT_FAILURE \<or> status = EXIT_SUCCESS \<and> holds (tr @ ev) {#sv_root_fd server#})"
proof -
  let ?cl = "(Sys_close (sv_fd server), k tr (Sys_close (sv_fd server)))"
  let ?t = "tr @ [?cl]"
  obtain code c ev where run: "fork_server_handle_connection k request0 connection0 client
      (sv_root_fd server) (Some cfg) ?t = Some (code, c, ?t @ ev)"
    and h: "confined [sv_root_fd server] ev" "code = -1 \<or> code = 0 \<and> opened ev = closed ev"
    using handler_safe [OF assms(1-5), of connection0 "sv_root_fd server" ?t] by blast
  let ?last = "(Sys_close client, k (?t @ ev) (Sys_close client))"
  have child: "main_child k request0 connection0 server cfg client tr =
      Some (if code < 0 then EXIT_FAILURE else EXIT_SUCCESS, tr @ ?cl # ev @ [?last])"
    using run by (simp add: main_child_def close_fd_snoc)
  moreover have "confined [sv_root_fd server] (?cl # ev @ [?last])"
    using confined_append [OF h(1), of "[?last]"] by simp
  moreover have "holds (tr @ ?cl # ev @ [?last]) {#sv_root_fd server#}" if "opened ev = closed ev"
    using assms(6) that by (auto simp: holds_def trace_simps)
  ultimately show ?thesis using h(2) by fastforce
qed

section \<open>The address\<close>

lemma server_start_binds:
  assumes "server_start k s tr = (0, tr')"
  shows "\<exists>a b l. tr' = tr @ [(Sys_inet_pton ''127.0.0.1'', a),
      (Sys_bind (sv_fd s) ''127.0.0.1'' (htons (word_of_int (sv_port s))), b),
      (Sys_listen (sv_fd s) (sv_backlog s), l)] \<and> 0 \<le> a_ret b \<and> 0 \<le> a_ret l"
  using assms by (fastforce simp: server_start_def sys_def split: if_splits)

section \<open>Properties\<close>

definition server_zero :: server_t where
  "server_zero = \<lparr>sv_fd = 0, sv_root_fd = 0, sv_port = 0, sv_backlog = 0\<rparr>"

definition example_trace :: trace where
  "example_trace = snd (main_setup example_kernel server_zero example_config [''server''] [])"

lemma example_setup:
  "main_setup example_kernel server_zero example_config [''server''] [] =
     (Inr (\<lparr>sv_fd = 3, sv_root_fd = 4, sv_port = 8080, sv_backlog = 10\<rparr>, example_config), example_trace)"
proof -
  have "config_init example_config = example_config"
    by (simp add: config_init_def example_config_def DEFAULT_PORT_def DEFAULT_BACKLOG_def
      DEFAULT_CLIENT_TIMEOUT_def DEFAULT_DOCUMENT_ROOT_def DEFAULT_HTTP_BUFFER_SIZE_def
      DEFAULT_HTTP_MAX_HEADERS_def DEFAULT_HTTP_HEADER_NAME_MAX_def DEFAULT_HTTP_HEADER_VALUE_MAX_def)
  then show ?thesis
    by (simp add: example_trace_def main_setup_def sys_def config_parse_args_def server_init_def
        server_start_def Let_def server_zero_def) (simp add: example_config_def)
qed

definition example_parent :: parent_state where
  "example_parent = \<lparr>ps_server = \<lparr>sv_fd = 3, sv_root_fd = 4, sv_port = 8080, sv_backlog = 10\<rparr>,
     ps_config = example_config, ps_trace = example_trace, ps_children = []\<rparr>"

lemma example_reachable:
  "parent_reachable example_kernel server_zero example_config [''server''] example_parent"
  unfolding example_parent_def by (rule parent_reachable.start) (rule example_setup)

text \<open>
  C14: However often \<open>accept\<close>, \<open>setsockopt\<close> and \<open>fork\<close> fail and whenever child signals arrive, the
  parent holds exactly two descriptors between two turns of its loop, the listening socket and
  the document root, so that it never leaks a client; and every child it forks starts with
  these two and its client only.
\<close>

theorem parent_descriptors:
  assumes "parent_reachable k server0 config0 argv s"
  shows "holds (ps_trace s) {#sv_fd (ps_server s), sv_root_fd (ps_server s)#} \<and>
    (\<forall>(client, ctr) \<in> set (ps_children s).
       0 \<le> client \<and> holds ctr {#client, sv_fd (ps_server s), sv_root_fd (ps_server s)#})"
  using parent_reachable_inv [OF assms] by (auto simp: parent_inv_def)

theorem parent_descriptors_witness:
  "\<exists>s s'. parent_step example_kernel s s' \<and> length (ps_children s') = 1 \<and>
    holds (ps_trace s') {#3, 4#}"
proof -
  obtain tr child where turn: "main_turn example_kernel (ps_server example_parent)
      (ps_config example_parent) (ps_trace example_parent) = (tr, Some child)"
    by (simp add: main_turn_def server_accept_def sys_def)
  let ?s = "example_parent\<lparr>ps_trace := tr, ps_children := ps_children example_parent @ [child]\<rparr>"
  have step: "parent_step example_kernel example_parent ?s" using turn by (rule parent_step.forked)
  from parent_descriptors [OF parent_reachable.step [OF example_reachable step]]
  have "holds (ps_trace ?s) {#3, 4#}" by (simp add: example_parent_def)
  moreover have "length (ps_children ?s) = 1" by (simp add: example_parent_def)
  ultimately show ?thesis using step by blast
qed

text \<open>
  C33: The set-up of \<open>main\<close> either ends with \<open>EXIT_FAILURE\<close> and no descriptor open, whichever step
  failed, or yields a server that holds exactly its listening socket and the document root, with
  the port and backlog of the accepted configuration.
\<close>

theorem main_setup_balanced:
  "(\<exists>server config. fst (main_setup k server0 config0 argv []) = Inr (server, config) \<and>
      0 \<le> sv_fd server \<and> 0 \<le> sv_root_fd server \<and> config_ranges config \<and>
      sv_port server = port config \<and> sv_backlog server = backlog config \<and>
      holds (snd (main_setup k server0 config0 argv [])) {#sv_fd server, sv_root_fd server#}) \<or>
   fst (main_setup k server0 config0 argv []) = Inl EXIT_FAILURE \<and>
     holds (snd (main_setup k server0 config0 argv [])) {#}"
  using main_setup_holds [of k server0 config0 argv "fst (main_setup k server0 config0 argv [])"
      "snd (main_setup k server0 config0 argv [])"] config_args_loop_ranges [OF config_init_ranges]
  by (auto simp: server_open_def config_parse_args_def)

text \<open>
  C34: The port on which the server listens is the configured one: for a configuration within the
  accepted ranges the conversion to 16 bits loses nothing, the two bytes stored in \<open>sin_port\<close> name
  it in network byte order, and \<open>server_start\<close> binds that port of the loopback address and then
  listens with the configured backlog.
\<close>

theorem server_start_port:
  assumes "config_ranges config" "sv_port server = port config" "server_start k server tr = (0, tr')"
  shows "\<exists>sin_port a b l. net_port sin_port = port config \<and>
    tr' = tr @ [(Sys_inet_pton ''127.0.0.1'', a), (Sys_bind (sv_fd server) ''127.0.0.1'' sin_port, b),
      (Sys_listen (sv_fd server) (sv_backlog server), l)] \<and> 0 \<le> a_ret b \<and> 0 \<le> a_ret l"
proof -
  have "uint (word_of_int (port config) :: 16 word) = port config"
    using assms(1) by (simp add: config_ranges_def uint_word_of_int)
  then have "net_port (htons (word_of_int (sv_port server))) = port config"
    using assms(2) net_port_htons by simp
  then show ?thesis using server_start_binds [OF assms(3)] by blast
qed

theorem server_start_port_witness:
  "\<exists>sin_port a b l. net_port sin_port = 8080 \<and>
    snd (server_start example_kernel (server_zero\<lparr>sv_port := 8080\<rparr>) []) =
      [(Sys_inet_pton ''127.0.0.1'', a), (Sys_bind 0 ''127.0.0.1'' sin_port, b), (Sys_listen 0 0, l)]"
proof -
  have run: "server_start example_kernel (server_zero\<lparr>sv_port := 8080\<rparr>) [] =
      (0, snd (server_start example_kernel (server_zero\<lparr>sv_port := 8080\<rparr>) []))"
    by (simp add: server_start_def sys_def)
  have r: "config_ranges example_config" by (simp add: config_ranges_def example_config_def INT_MAX_def)
  from server_start_port [OF r _ run] show ?thesis by (auto simp: example_config_def server_zero_def)
qed

text \<open>
  C35: The handler of \<open>SIGCHLD\<close> goes on calling \<open>waitpid\<close> as long as it reports a child and returns
  at the first call that reports none, so that one signal reaps all the children that have ended;
  it leaves the descriptors of the process as they were.
\<close>

theorem reap_children_correct:
  assumes "\<not> a_ret (k (retried k Sys_waitpid n tr) Sys_waitpid) > 0"
  shows "\<exists>m \<le> n. reap_children k tr = Some (retried k Sys_waitpid (Suc m) tr) \<and>
    (\<forall>i < m. a_ret (k (retried k Sys_waitpid i tr) Sys_waitpid) > 0) \<and>
    \<not> a_ret (k (retried k Sys_waitpid m tr) Sys_waitpid) > 0 \<and>
    opened (retried k Sys_waitpid (Suc m) tr) = opened tr \<and>
    closed (retried k Sys_waitpid (Suc m) tr) = closed tr"
  using reap_children_reaps [of k n tr] assms retried_waitpid by blast

text \<open>A kernel with two ended children: the handler reaps both before it returns.\<close>

definition two_zombies :: kernel where
  "two_zombies tr c = answer_ok (if length tr < 2 then 100 else 0)"

theorem reap_children_correct_witness:
  "\<exists>m \<le> 2. reap_children two_zombies [] = Some (retried two_zombies Sys_waitpid (Suc m) []) \<and>
    (\<forall>i < m. a_ret (two_zombies (retried two_zombies Sys_waitpid i []) Sys_waitpid) > 0) \<and>
    \<not> a_ret (two_zombies (retried two_zombies Sys_waitpid m []) Sys_waitpid) > 0 \<and>
    opened (retried two_zombies Sys_waitpid (Suc m) []) = opened [] \<and>
    closed (retried two_zombies Sys_waitpid (Suc m) []) = closed []"
  by (rule reap_children_correct) (simp add: two_zombies_def numeral_2_eq_2)

end
