(* ===== verification/Histories.thy ===== *)
theory Histories
  imports Fork_Server
begin

text \<open>
  Every operation leaves behind exactly the history its kernel gave it: the trace it returns is
  the one it was entered with, followed by calls it made and the kernel's own answers to them.
  This is what lets a hypothesis on the kernel speak about the events of a whole run.
\<close>

section \<open>Sending\<close>

lemma io_send_all_loop_runs:
  "io_send_all_loop k fd data len n tr = Some y \<Longrightarrow> runs k tr (snd y)"
proof (induction k fd data len n tr y rule: io_send_all_loop.raw_induct [rotated, consumes 1, case_names step])
  case (step self k fd data len n tr y)
  show ?case
    using step(2)
    by (auto simp: sys_def split: Option.bind_splits if_splits dest!: step(1)
        intro: runs_trans [OF runs_event])
qed

lemma io_send_all_runs: "io_send_all k fd data len tr = Some (r, tr') \<Longrightarrow> runs k tr tr'"
  unfolding io_send_all_def by (drule io_send_all_loop_runs) simp

lemma http_send_headers_loop_runs:
  "http_send_headers_loop k fd r tr = Some y \<Longrightarrow> runs k tr (snd (snd y))"
proof (induction k fd r tr y rule: http_send_headers_loop.raw_induct [rotated, consumes 1, case_names step])
  case (step self k fd r tr y)
  show ?case
    using step(2)
    by (auto simp: sys_def split: Option.bind_splits if_splits dest!: step(1)
        intro: runs_trans [OF runs_event])
qed

lemma http_send_body_loop_runs:
  "http_send_body_loop k fd r tr = Some y \<Longrightarrow> runs k tr (snd (snd y))"
proof (induction k fd r tr y rule: http_send_body_loop.raw_induct [rotated, consumes 1, case_names step])
  case (step self k fd r tr y)
  show ?case
    using step(2)
    by (auto simp: sys_def split: Option.bind_splits if_splits dest!: step(1)
        intro: runs_trans [OF runs_event])
qed

lemma http_send_file_loop_runs:
  "http_send_file_loop k fd r tr = Some y \<Longrightarrow> runs k tr (snd (snd y))"
proof (induction k fd r tr y rule: http_send_file_loop.raw_induct [rotated, consumes 1, case_names step])
  case (step self k fd r tr y)
  show ?case
    using step(2)
    by (auto simp: sys_def split: Option.bind_splits if_splits dest!: step(1)
        intro: runs_trans [OF runs_event])
qed

lemma http_response_send_blocking_runs:
  "http_response_send_blocking k fd r tr = Some (c, r', tr') \<Longrightarrow> runs k tr tr'"
  unfolding http_response_send_blocking_def
  by (auto split: option.splits Option.bind_splits if_splits
      dest!: http_send_headers_loop_runs http_send_body_loop_runs http_send_file_loop_runs;
    blast intro: runs_trans)

lemma http_send_response_runs:
  "http_send_response k fd status ct n ka tr = Some (c, tr') \<Longrightarrow> runs k tr tr'"
  unfolding http_send_response_def
  by (auto split: prod.splits Option.bind_splits if_splits dest!: io_send_all_runs)

lemma http_send_error_runs:
  "http_send_error k fd status ka tr = Some (c, tr') \<Longrightarrow> runs k tr tr'"
  unfolding http_send_error_def
  by (auto split: option.splits Option.bind_splits if_splits
      dest!: io_send_all_runs http_send_response_runs;
    blast intro: runs_trans)

section \<open>Files and prepared responses\<close>

lemma runs_step: "runs k tr t \<Longrightarrow> runs k tr (t @ [(c, k t c)])"
  using runs_trans [OF _ runs_event] by blast

lemma close_fd_runs: "runs k tr t \<Longrightarrow> runs k tr (close_fd k fd t)"
  by (simp add: close_fd_def sys_def runs_step)

lemma http_response_destroy_runs:
  "http_response_destroy k r tr = (r', tr') \<Longrightarrow> runs k tr tr'"
  by (auto simp: http_response_destroy_def sys_def split: option.splits if_splits)

lemma http_response_set_body_runs:
  "http_response_set_body k r b n tr = Some (c, r', tr') \<Longrightarrow> runs k tr tr'"
  unfolding http_response_set_body_def
  by (auto split: option.splits prod.splits Option.bind_splits dest!: runs_malloc)

lemma http_response_prepare_error_runs:
  "http_response_prepare_error k r status msg tr = Some (c, r', tr') \<Longrightarrow> runs k tr tr'"
  unfolding http_response_prepare_error_def Let_def
  by (auto split: option.splits prod.splits Option.bind_splits if_splits
      dest!: http_response_set_body_runs)

lemma http_prepare_failure_runs:
  "http_prepare_failure k r status msg tr = Some (c, r', cc, tr') \<Longrightarrow> runs k tr tr'"
  unfolding http_prepare_failure_def
  by (auto split: Option.bind_splits dest!: http_response_prepare_error_runs)

lemma http_prepare_file_runs:
  "http_prepare_file k rq r close root tr = Some (c, r', cc, tr') \<Longrightarrow> runs k tr tr'"
  unfolding http_prepare_file_def Let_def
  by (auto split: sum.splits prod.splits Option.bind_splits if_splits
      dest!: http_prepare_failure_runs file_open_path_runs_kernel
      intro: runs_trans close_fd_runs)

lemma http_prepare_checked_runs:
  "http_prepare_checked k rq r close root tr = Some (c, r', cc, tr') \<Longrightarrow> runs k tr tr'"
  unfolding http_prepare_checked_def Let_def
  by (auto split: Option.bind_splits if_splits
      dest!: http_prepare_failure_runs http_prepare_file_runs)

lemma http_prepare_response_runs:
  "http_prepare_response k rq0 b len r cc root cfg tr = Some (c, r', cc', tr') \<Longrightarrow> runs k tr tr'"
  unfolding http_prepare_response_def
  by (auto split: option.splits prod.splits Option.bind_splits if_splits
      dest!: runs_malloc http_prepare_failure_runs http_prepare_checked_runs intro: runs_trans)

section \<open>The loops of a connection and of a session\<close>

lemma http_process_loop_runs:
  "http_process_loop k rq0 c fd root cfg tr = Some y \<Longrightarrow> runs k tr (snd (snd y))"
proof (induction k rq0 c fd root cfg tr y rule: http_process_loop.raw_induct [rotated, consumes 1, case_names step])
  case (step self k rq0 c fd root cfg tr y)
  show ?case
    using step(2)
    by (auto simp: Let_def split: Option.bind_splits if_splits prod.splits
        dest!: step(1) http_prepare_response_runs http_response_send_blocking_runs
          http_response_destroy_runs
        intro: runs_trans)
qed

lemma http_process_connection_runs:
  "http_process_connection k rq0 c fd root cfg tr = Some (r, c', tr') \<Longrightarrow> runs k tr tr'"
  unfolding http_process_connection_def
  by (auto split: option.splits Option.bind_splits if_splits dest!: http_process_loop_runs)

lemma fork_server_loop_runs:
  "fork_server_loop k rq0 c fd root cfg tr = Some y \<Longrightarrow> runs k tr (snd (snd y))"
proof (induction k rq0 c fd root cfg tr y rule: fork_server_loop.raw_induct [rotated, consumes 1, case_names step])
  case (step self k rq0 c fd root cfg tr y)
  show ?case
    using step(2)
    by (auto simp: sys_def Let_def split: Option.bind_splits if_splits prod.splits
        dest!: step(1) http_send_error_runs http_process_connection_runs
        intro: runs_trans runs_trans [OF runs_event])
qed

lemma fork_server_handle_connection_runs:
  "fork_server_handle_connection k rq0 c0 fd root cfg tr = Some (r, c', tr') \<Longrightarrow> runs k tr tr'"
  unfolding fork_server_handle_connection_def http_connection_init_def
  by (auto split: option.splits prod.splits Option.bind_splits if_splits
      dest!: runs_malloc fork_server_loop_runs intro: runs_trans)

end
