(* ===== verification/Client_Session.thy ===== *)
theory Client_Session
  imports Histories
begin

text \<open>
  A client that talks to the handler of a connection: it sends the requests \<open>ws\<close> one behind the
  other, in pieces of any size, and then closes its side. What the session protocol makes of that
  when the kernel refuses nothing: every request up to the first that closes the connection is
  answered, in order and in full.
\<close>

section \<open>Requests on the wire\<close>

lemma render_header_line:
  "header_wf cfg h \<Longrightarrow> \<exists>l. render_header h = l @ CRLF \<and> CR \<notin> set l \<and> l \<noteq> []"
  by (intro exI [of _ "hdr_name h @ '': '' @ hdr_value h"])
    (auto simp: render_header_def header_wf_def dest: tchars_not value_bytes_not)

lemma render_headers_end:
  assumes "list_all (header_wf cfg) hs" "CR \<notin> set l" "l \<noteq> []"
  shows "header_end_spec (l @ CRLF @ concat (map render_header hs) @ CRLF) =
    Some (length (l @ CRLF @ concat (map render_header hs) @ CRLF))"
  using assms
proof (induction hs arbitrary: l)
  case Nil
  then show ?case by (simp add: header_end_spec_line)
next
  case (Cons h hs)
  then obtain l' where l': "render_header h = l' @ CRLF" "CR \<notin> set l'" "l' \<noteq> []"
    using render_header_line by fastforce
  then have "\<not> prefix CRLF (l' @ CRLF @ concat (map render_header hs) @ CRLF)"
    by (cases l') auto
  with Cons.IH [OF _ l'(2,3)] Cons.prems l'(1) show ?case by (simp add: header_end_spec_line)
qed

lemma render_request_end:
  assumes "view_wf cfg w"
  shows "header_end_spec (render_request w) = Some (length (render_request w))"
proof -
  let ?l = "v_method w @ SP # render_target (v_path w) (v_query w) @ SP # v_version w"
  have "render_request w = ?l @ CRLF @ concat (map render_header (v_headers w)) @ CRLF"
    by (simp add: render_request_def)
  moreover have "CR \<notin> set ?l" "list_all (header_wf cfg) (v_headers w)"
    using request_line_render(1) [OF assms] assms by (auto simp: view_wf_def)
  ultimately show ?thesis using render_headers_end [of cfg "v_headers w" ?l] by simp
qed

text \<open>The requests the server serves: GET or HEAD, one \<open>Host\<close> for HTTP/1.1, no body.\<close>

definition served_request :: "request_view \<Rightarrow> bool" where
  "served_request w \<longleftrightarrow>
     (v_method w = ''GET'' \<or> v_method w = ''HEAD'') \<and>
     (v_version w = ''HTTP/1.1'' \<longrightarrow> length (filter (named ''Host'') (v_headers w)) = 1) \<and>
     framing_spec (v_headers w) = None"

lemma decide_render:
  assumes "view_wf cfg w" "served_request w"
  shows "decide cfg (cstr (render_request w)) False = Serve w (wants_close w)"
  using request_spec_render [OF assms(1), of "[]"] render_request_no_NUL [OF assms(1)] assms(2)
  by (auto simp: decide_def decide_view_def served_request_def cstr_id)

section \<open>The requests of a client and their answers\<close>

definition stream :: "request_view list \<Rightarrow> bytes" where
  "stream ws = concat (map render_request ws)"

text \<open>A request that the server serves and that fits the buffer of the connection.\<close>

definition answerable :: "server_config_t \<Rightarrow> request_view \<Rightarrow> bool" where
  "answerable cfg w \<longleftrightarrow>
     view_wf cfg w \<and> served_request w \<and> length (render_request w) \<le> http_buffer_size cfg"

text \<open>The answer to a request whose file was \<open>fo\<close>, and whether the connection stays open after it.\<close>

abbreviation answer_to :: "(int \<Rightarrow> bytes) \<Rightarrow> request_view \<Rightarrow> errno + file_t \<Rightarrow> bytes" where
  "answer_to content w fo \<equiv> response_bytes content (Serve w (wants_close w)) fo"

abbreviation keeps_open :: "request_view \<Rightarrow> errno + file_t \<Rightarrow> bool" where
  "keeps_open w fo \<equiv> \<not> response_closes (Serve w (wants_close w)) fo"

text \<open>\<open>fos\<close> are the files of the requests up to the first whose answer closes the connection.\<close>

fun served_with :: "request_view list \<Rightarrow> (errno + file_t) list \<Rightarrow> bool" where
  "served_with [] [] \<longleftrightarrow> True"
| "served_with (w # ws) (fo # fos) \<longleftrightarrow> (if keeps_open w fo then served_with ws fos else fos = [])"
| "served_with _ _ \<longleftrightarrow> False"

lemma served_with_append:
  "list_all2 keeps_open ws fos \<Longrightarrow> served_with (ws @ ws') (fos @ fos') = served_with ws' fos'"
  by (induction rule: list_all2_induct) simp_all

text \<open>Opening the paths gave \<open>fos\<close>, and the client received the answers in order and nothing else.\<close>

definition answers ::
    "int \<Rightarrow> int \<Rightarrow> request_view list \<Rightarrow> (errno + file_t) list \<Rightarrow> trace \<Rightarrow> bool" where
  "answers root fd ws fos ev \<longleftrightarrow>
     (\<forall>(w, fo) \<in> set (zip ws fos). file_answer root (Serve w (wants_close w)) fo ev) \<and>
     (\<forall>content. sent content fd ev = concat (map2 (answer_to content) ws fos))"

lemma answers_Nil [simp]: "answers root fd [] fos []" "answers root fd ws [] []"
  by (simp_all add: answers_def trace_simps)

lemma file_answer_prepend: "file_answer root d fo ev \<Longrightarrow> file_answer root d fo (ev' @ ev)"
  by (induction ev') (simp_all add: file_answer_Cons)

lemma answers_append:
  assumes "length ws = length fos" "answers root fd ws fos ev" "answers root fd ws' fos' ev'"
  shows "answers root fd (ws @ ws') (fos @ fos') (ev @ ev')"
  using assms file_answer_append file_answer_prepend
  by (fastforce simp: answers_def trace_simps)

lemma answers_recv [simp, intro]:
  "answers root fd ws fos ev \<Longrightarrow> answers root fd ws fos ((Sys_recv s n, a) # ev)"
  by (auto simp: answers_def trace_simps intro: file_answer_Cons)

section \<open>One request at a time\<close>

lemma next_request:
  assumes "s @ later = stream ws @ part" "list_all (answerable cfg) ws" "header_end_spec part = None"
    and "header_end_spec s = Some e"
  obtains w ws' where "ws = w # ws'" "answerable cfg w" "take e s = render_request w"
    "drop e s @ later = stream ws' @ part"
proof -
  have end_e: "header_end_spec (stream ws @ part) = Some e"
    using header_end_spec_append [OF assms(4), of later] assms(1) by simp
  with assms(3) obtain w ws' where ws: "ws = w # ws'" by (cases ws) (auto simp: stream_def)
  with assms(2) have w: "answerable cfg w" by simp
  then have "header_end_spec (render_request w) = Some (length (render_request w))"
    using render_request_end by (auto simp: answerable_def)
  from header_end_spec_append [OF this, of "stream ws' @ part"] end_e ws
  have e: "e = length (render_request w)" by (simp add: stream_def)
  have le: "e \<le> length s" using header_end_spec_bounds [OF assms(4)] by simp
  have "take e s = take e (s @ later)" "drop e s @ later = drop e (s @ later)" using le by simp_all
  then have "take e s = render_request w" "drop e s @ later = stream ws' @ part"
    unfolding assms(1) ws using e by (simp_all add: stream_def)
  with ws w show thesis by (rule that)
qed

lemma incomplete_request:
  assumes "s @ later = stream ws @ part" "list_all (answerable cfg) ws"
    and "header_end_spec s = None" "length part < http_buffer_size cfg"
  shows "length s < http_buffer_size cfg" and "later = [] \<Longrightarrow> ws = []"
proof -
  have open_ws: "length s < length (render_request w)" if ws: "ws = w # ws'" for w ws'
  proof (rule ccontr)
    assume "\<not> ?thesis"
    moreover have "take (length s) (s @ later) = s" by simp
    ultimately have "prefix (render_request w) s"
      using assms(1) ws by (metis append.assoc concat.simps(2) list.simps(9) not_less prefixI
          prefix_length_prefix stream_def)
    then obtain t where "s = render_request w @ t" by (auto simp: prefix_def)
    moreover have "header_end_spec (render_request w) = Some (length (render_request w))"
      using assms(2) ws render_request_end by (auto simp: answerable_def)
    ultimately show False using header_end_spec_append assms(3) by fastforce
  qed
  show "length s < http_buffer_size cfg"
  proof (cases ws)
    case Nil
    with assms(1,4) show ?thesis by (auto simp: stream_def dest: arg_cong [where f = length])
  next
    case (Cons w ws')
    with open_ws assms(2) show ?thesis by (fastforce simp: answerable_def)
  qed
  show "ws = []" if "later = []"
  proof (cases ws)
    case (Cons w ws')
    with assms(1) that have "length s \<ge> length (render_request w)" by (simp add: stream_def)
    with open_ws [OF Cons] show ?thesis by simp
  qed simp
qed

lemma exchange_answers:
  assumes "exchange cfg root fd (render_request w) ev close" "answerable cfg w"
  obtains fo where "answers root fd [w] [fo] ev" "close \<longleftrightarrow> \<not> keeps_open w fo" "deaf ev"
  using assms decide_render [of cfg w]
  by (auto simp: exchange_def answers_def answerable_def)

section \<open>What is received is answered\<close>

definition conversation_answers ::
    "int \<Rightarrow> int \<Rightarrow> bytes \<Rightarrow> bytes \<Rightarrow> request_view list \<Rightarrow> trace \<Rightarrow> bool \<Rightarrow> bytes \<Rightarrow> bool" where
  "conversation_answers root fd part later ws ev close rest \<longleftrightarrow>
     (if close then \<exists>fos. served_with ws fos \<and> answers root fd ws fos ev
      else \<exists>ws1 ws2 fos. ws = ws1 @ ws2 \<and> list_all2 keeps_open ws1 fos \<and> answers root fd ws1 fos ev \<and>
        rest @ later = stream ws2 @ part \<and> header_end_spec rest = None)"

lemma conversation_answers_open:
  "list_all2 keeps_open ws1 fos \<Longrightarrow> answers root fd ws1 fos ev \<Longrightarrow> rest @ later = stream ws2 @ part \<Longrightarrow>
   header_end_spec rest = None \<Longrightarrow> conversation_answers root fd part later (ws1 @ ws2) ev False rest"
  unfolding conversation_answers_def by auto

lemma conversation_answers_Cons:
  assumes "answers root fd [w] [fo] ev" "keeps_open w fo"
    and "conversation_answers root fd part later ws ev' close rest"
  shows "conversation_answers root fd part later (w # ws) (ev @ ev') close rest"
proof (cases close)
  case True
  with assms(3) obtain fos where "served_with ws fos" "answers root fd ws fos ev'"
    by (auto simp: conversation_answers_def)
  with True assms(1,2) answers_append [of "[w]" "[fo]" root fd ev ws fos ev'] show ?thesis
    by (auto simp: conversation_answers_def intro!: exI [of _ "fo # fos"])
next
  case False
  with assms(3) obtain ws1 ws2 fos where "ws = ws1 @ ws2" "list_all2 keeps_open ws1 fos"
    "answers root fd ws1 fos ev'" "rest @ later = stream ws2 @ part" "header_end_spec rest = None"
    by (auto simp: conversation_answers_def)
  with False assms(1,2) answers_append [of "[w]" "[fo]" root fd ev ws1 fos ev']
    conversation_answers_open [of "w # ws1" "fo # fos"] show ?thesis by simp
qed

lemma conversation_serves:
  assumes "conversation cfg root fd s ev code close rest" "\<not> list_ex (refused True) ev"
    and "s @ later = stream ws @ part" "list_all (answerable cfg) ws" "header_end_spec part = None"
  shows "code = 0 \<and> deaf ev \<and> conversation_answers root fd part later ws ev close rest"
  using assms(1-4)
proof (induction arbitrary: ws rule: conversation.induct)
  case (waiting s)
  then show ?case using conversation_answers_open [of "[]" "[]" root fd "[]" s later ws part] by simp
next
  case (broke s e ev close)
  then show ?case by (simp add: broken_def)
next
  case (final s e ev)
  from next_request [OF final.prems(2,3) assms(5) final.hyps(1)] obtain w ws' where
    w: "ws = w # ws'" "answerable cfg w" "take e s = render_request w" by metis
  with final.hyps(2) obtain fo where "answers root fd [w] [fo] ev" "\<not> keeps_open w fo" "deaf ev"
    using exchange_answers by metis
  with w show ?case
    by (auto simp: conversation_answers_def answers_def intro!: exI [of _ "[fo]"])
next
  case (continue s e ev ev' code close rest)
  from next_request [OF continue.prems(2,3) assms(5) continue.hyps(1)] obtain w ws' where
    w: "ws = w # ws'" "answerable cfg w" "take e s = render_request w"
      "drop e s @ later = stream ws' @ part" by metis
  with continue.hyps(2) obtain fo where fo: "answers root fd [w] [fo] ev" "keeps_open w fo" "deaf ev"
    using exchange_answers by metis
  have "code = 0 \<and> deaf ev' \<and> conversation_answers root fd part later ws' ev' close rest"
    using continue.IH [OF _ w(4)] continue.prems w(1) by simp
  with conversation_answers_Cons [OF fo(1,2)] fo(3) w(1) show ?case by simp
qed

text \<open>What a \<open>recv\<close> that returned data has done to the stream.\<close>

lemma client_sends_data:
  assumes "client_sends k fd data" "0 < a_ret a" "a = k tr (Sys_recv fd n)"
    and "s @ drop (received fd tr) data = t"
  shows "(s @ a_data a) @ drop (received fd (tr @ [(Sys_recv fd n, a)])) data = t"
proof -
  have "a_data a = take (nat (a_ret a)) (drop (received fd tr) data)"
    using client_sendsD [OF assms(1), of tr n] assms(2,3) by (auto simp: interrupted_def)
  moreover have "received fd (tr @ [(Sys_recv fd n, a)]) = nat (a_ret a) + received fd tr"
    by (simp add: received_def)
  ultimately show ?thesis
    using assms(4) append_take_drop_id [of "nat (a_ret a)" "drop (received fd tr) data"]
    by (simp add: drop_drop)
qed

lemma session_serves:
  assumes "session cfg root fd s ev code" "genuine k tr ev" "willing k" "client_sends k fd data"
    and "s @ drop (received fd tr) data = stream ws @ part" "list_all (answerable cfg) ws"
    and "header_end_spec part = None" "length part < http_buffer_size cfg" "header_end_spec s = None"
  shows "code = 0 \<and> (\<exists>fos. served_with ws fos \<and> answers root fd ws fos ev)"
  using assms(1,2,5,6,9)
proof (induction arbitrary: tr ws rule: session.induct)
  case (overflow s r ev)
  then show ?case using incomplete_request(1) [OF overflow.prems(2,3,4) assms(8)] by simp
next
  case (interrupt s a ev code n)
  then have "received fd (tr @ [(Sys_recv fd n, a)]) = received fd tr"
    by (simp add: received_def interrupted_def)
  with interrupt.IH [of "tr @ [(Sys_recv fd n, a)]" ws] interrupt.prems show ?case by auto
next
  case (lost s a n)
  with client_sendsD [OF assms(4), of tr n] show ?case by (auto simp: interrupted_def)
next
  case (hung_up s n a)
  then have "drop (received fd tr) data = []"
    using client_sendsD [OF assms(4), of tr n] by (auto simp: interrupted_def)
  with incomplete_request(2) [OF hung_up.prems(2,3,4) assms(8)] have "ws = []" by simp
  then show ?case by (auto intro!: exI [of _ "[]"])
next
  case (failing s a ev close rest n)
  note d = client_sends_data [OF assms(4) failing.hyps(2) _ failing.prems(2), of n]
  have "\<not> list_ex (refused True) ev" using willing_genuine [OF assms(3)] failing.prems(1) by auto
  with conversation_serves [OF failing.hyps(3) _ d failing.prems(3) assms(7)] failing.prems(1)
  show ?case by simp
next
  case (closing s a ev rest n)
  note d = client_sends_data [OF assms(4) closing.hyps(2) _ closing.prems(2), of n]
  have "\<not> list_ex (refused True) ev" using willing_genuine [OF assms(3)] closing.prems(1) by auto
  with conversation_serves [OF closing.hyps(3) _ d closing.prems(3) assms(7)] closing.prems(1)
  show ?case by (auto simp: conversation_answers_def)
next
  case (keep_alive s a ev rest ev' code n)
  note d = client_sends_data [OF assms(4) keep_alive.hyps(2) _ keep_alive.prems(2), of n]
  have g: "a = k tr (Sys_recv fd n)" "genuine k (tr @ [(Sys_recv fd n, a)]) ev"
    "genuine k ((tr @ [(Sys_recv fd n, a)]) @ ev) ev'"
    using keep_alive.prems(1) by (auto simp: genuine_append)
  then have "\<not> list_ex (refused True) ev" using willing_genuine [OF assms(3)] by blast
  from conversation_serves [OF keep_alive.hyps(3) this d [OF g(1)] keep_alive.prems(3) assms(7)]
  obtain ws1 ws2 fos where c: "ws = ws1 @ ws2" "list_all2 keeps_open ws1 fos" "deaf ev"
    "answers root fd ws1 fos ev" "header_end_spec rest = None"
    "rest @ drop (received fd (tr @ [(Sys_recv fd n, a)])) data = stream ws2 @ part"
    by (auto simp: conversation_answers_def)
  have "received fd ((tr @ [(Sys_recv fd n, a)]) @ ev) = received fd (tr @ [(Sys_recv fd n, a)])"
    using deaf_received [OF c(3)] by (simp only: received_append)
  with keep_alive.IH [OF g(3), of ws2] c(1,5,6) keep_alive.prems(3) obtain fos' where
    "code = 0" "served_with ws2 fos'" "answers root fd ws2 fos' ev'" by auto
  with c answers_append [OF list_all2_lengthD [OF c(2)] c(4)] served_with_append [OF c(2)]
  show ?case by (auto intro!: exI [of _ "fos @ fos'"])
qed

section \<open>Properties\<close>

text \<open>
  C1: The server answers its clients. When the kernel refuses nothing and a client sends
  requests the server serves, one behind the other and in pieces of any size, and then closes
  its side, possibly in the middle of a further request, the handler ends with success and the
  client has received, in order, the complete answer to every request up to the first that
  closes the connection, and nothing else. Every file is opened beneath the document root and
  closed again.
\<close>

theorem client_is_served:
  assumes "fair_kernel k" "recv_bounded k" "willing k" "http_config_valid (Some cfg)"
    and "\<forall>t. length (rq_headers (request0 t)) = HTTP_MAX_HEADERS"
    and "size_ok (http_buffer_size cfg + 1)"
    and "client_sends k fd (stream ws @ part)" "received fd tr = 0"
    and "list_all (answerable cfg) ws"
    and "header_end_spec part = None" "length part < http_buffer_size cfg"
  shows "\<exists>c ev fos. fork_server_handle_connection k request0 connection0 fd root (Some cfg) tr =
      Some (0, c, tr @ ev) \<and> confined [root] ev \<and> opened ev = closed ev \<and>
    served_with ws fos \<and> answers root fd ws fos ev"
proof -
  let ?m = "Sys_malloc (http_buffer_size cfg)"
  obtain code c a ev where run: "fork_server_handle_connection k request0 connection0 fd root (Some cfg) tr =
      Some (code, c, tr @ (?m, a) # ev)"
    "if a_ret a < 0 then code = -1 \<and> ev = [] else session cfg root fd [] ev code"
    using fork_server_handle_connection_follows [OF assms(1,2,4-6) client_sends_stops [OF assms(7,2)],
        of connection0 root tr] by blast
  have g: "a = k tr ?m" "genuine k (tr @ [(?m, a)]) ev"
    using fork_server_handle_connection_runs [OF run(1)] by (auto simp: runs_append)
  have "\<not> refused True (?m, a)" using assms(3) g(1) unfolding willing_def by blast
  then have s: "session cfg root fd [] ev code" using run(2) by simp
  have "received fd (tr @ [(?m, a)]) = 0" using assms(8) by (simp add: received_def)
  with session_serves [OF s g(2) assms(3,7) _ assms(9-11)] obtain fos where
    "code = 0" "served_with ws fos" "answers root fd ws fos ev"
    by (auto simp: header_end_spec_short)
  moreover from this(3) have "answers root fd ws fos ((?m, a) # ev)"
    by (auto simp: answers_def trace_simps intro: file_answer_Cons)
  moreover have "opened ((?m, a) # ev) = closed ((?m, a) # ev)" "confined [root] ((?m, a) # ev)"
    using session_code [OF s] session_confined [OF s] \<open>code = 0\<close> by (simp_all add: trace_simps)
  ultimately show ?thesis using run(1) by blast
qed

definition example_get :: request_view where
  "example_get = \<lparr>v_method = ''GET'', v_path = ''/a.txt'', v_query = [], v_version = ''HTTP/1.1'',
     v_headers = [\<lparr>hdr_name = ''Host'', hdr_value = ''h''\<rparr>]\<rparr>"

lemma example_get_request:
  "render_request example_get = example_request" "view_wf example_config example_get"
  "served_request example_get"
  by code_simp+

lemma example_answerable: "list_all (answerable example_config) [example_get]"
  using example_get_request by (simp add: answerable_def example_request_def example_config_def)

theorem client_is_served_witness:
  "\<exists>c ev fos. fork_server_handle_connection example_kernel (\<lambda>t. blank_request) example_connection 5 4
      (Some example_config) [] = Some (0, c, [] @ ev) \<and> confined [4] ev \<and> opened ev = closed ev \<and>
    served_with [example_get] fos \<and> answers 4 5 [example_get] fos ev"
  by (rule client_is_served [where part = "[]"])
    (use example_answerable in \<open>simp_all add: stream_def example_get_request received_def
      header_end_spec_short\<close>, simp add: example_config_def)

end
