(* ===== verification/Spec2Isabelle.thy ===== *)
theory Spec2Isabelle
  imports Main_Program Client_Session
begin

text \<open>
  A verification library for the HTTP server of this repository, a C program that serves static
  files over HTTP/1.0 and 1.1 with one child process per connection.

  \<^bold>\<open>The program.\<close> \<open>main\<close> (\<open>src/main.c\<close>) reads the configuration (\<open>src/config.c\<close>), opens the listening
  socket and the document root (\<open>src/server.c\<close>), and forks a child for every connection. The child
  (\<open>src/fork_server.c\<close>) receives bytes into the buffer of the connection
  (\<open>src/http_connection.c\<close>) and has the complete requests in it processed (\<open>src/http.c\<close>): each is
  parsed (\<open>src/http_parse.c\<close>), checked, and answered with a file that is opened beneath the document
  root (\<open>src/file.c\<close>, content types from \<open>src/mime.c\<close>) or with an error page; the response is built
  and sent by \<open>src/http_response.c\<close> and \<open>src/io.c\<close>.

  \<^bold>\<open>Conventions.\<close> A function that may run into undefined behaviour, or may not return, has a result
  in \<open>option\<close>: \<open>None\<close> is an access outside an object, the use of a null pointer, or a loop without end
  (\<open>partial_function (option)\<close> for the loops that wait for the environment), and \<open>Some\<close> is the
  return. A theorem that says that the result is \<open>Some\<close> therefore says that the code is memory safe
  there and returns. A pointer the code compares with \<open>NULL\<close> is an option. Buffers are lists of
  characters; a position is an index, and every read goes through \<open>rd\<close> or \<open>rd_bytes\<close>, every write
  through \<open>blit\<close> or \<open>fill\<close>, which check the bounds, the writes of \<open>snprintf\<close> and \<open>recv\<close> included.
  Bytes are those of the little-endian x86-64 target: plain \<open>char\<close> is signed and \<open>htons\<close> swaps the
  bytes of the port. \<open>size_t\<close> is \<open>nat\<close> with the wrap-around written out
  (\<open>size_add\<close>, \<open>size_sub\<close>); the accumulator of \<open>Content-Length\<close> is a \<open>64 word\<close>. Fields that are
  character arrays with a terminator are the strings they hold. Definitions keep the names of the
  C functions; a loop or a part of a long function that is a definition of its own has the name of
  the function and a suffix.

  \<^bold>\<open>The environment.\<close> The kernel, the peer and \<open>malloc\<close> are one parameter \<open>k\<close> of type \<open>kernel\<close>, a
  function from the history of calls to the answer of the next one (theory Kernel). A theorem for
  all \<open>k\<close> covers every network, client, file system and failure. What a process did is its trace;
  what went out on a socket (\<open>sent\<close>) and which descriptors are open (\<open>opened\<close>, \<open>closed\<close>, \<open>holds\<close>) are
  functions of the trace. The hypotheses on \<open>k\<close> are documented behaviour: \<open>send\<close>, \<open>sendfile\<close> and \<open>recv\<close>
  report no more than they were asked for (\<open>send_bounded\<close>, \<open>sendfile_bounded\<close>, \<open>recv_bounded\<close>), a
  file size is an \<open>off_t\<close> (\<open>stat_bounded\<close>), one call is not interrupted for ever (\<open>retry_fair\<close>), and,
  for termination of a session, the client sends finitely many bytes (\<open>client_stops\<close>); a client
  that goes on for ever can keep a session alive, so that this hypothesis is needed. Only the
  liveness theorem asks for more: a kernel that refuses nothing (\<open>willing\<close>) and a client that sends
  given bytes and then closes its side (\<open>client_sends\<close>). The theory
  Example_Kernel has a concrete kernel that satisfies all of them.

  \<^bold>\<open>The theories.\<close>
  Prelude: collections of simplification rules, memory primitives, lists split at a byte or at CRLF.
  C_Lib: the functions of the C library the server uses (\<open>strlen\<close>, \<open>strstr\<close>, \<open>memchr\<close>, \<open>strcasecmp\<close>,
  \<open>strtol\<close>, \<open>strtoull\<close>, decimal output) with their laws.
  Config: \<open>src/config.c\<close>; ranges of accepted configurations, round trip of the options.
  Http_Types: the types of \<open>include/http.h\<close>.
  Http_Parse: \<open>src/http_parse.c\<close>, function by function.
  Http_Grammar: the grammar of requests as functions on strings (\<open>request_spec\<close>) and the proof that
  the parser, with all its positions and copies, implements it; the end of a header block.
  Http_Roundtrip: requests as a client writes them are parsed back; what is accepted is in the
  grammar.
  Kernel, Example_Kernel: system calls, answers, traces and what they mean.
  Transfers: the locale \<open>transfer_loop\<close>, the contract of the five loops that push a block of bytes
  through the kernel, with totality and the sent prefix proved once.
  Io, Http_Response, File_Open: \<open>src/io.c\<close>, \<open>src/http_response.c\<close>, \<open>src/file.c\<close>; each interprets
  \<open>transfer_loop\<close>, and File_Open interprets the locale \<open>file_layer\<close> (balanced descriptors, confined
  opens).
  Mime: \<open>src/mime.c\<close>.
  Http_Connection: \<open>src/http_connection.c\<close>; it interprets the locale \<open>byte_queue\<close>.
  Http: \<open>src/http.c\<close>.
  Http_Correct: the scans over the header table (locale \<open>table_scan\<close>), the framing rule, and the
  decision of the server on the bytes of a request (\<open>decide\<close>).
  Http_Process: the bytes that answer a decision, the protocol of a connection (\<open>conversation\<close>) and
  the proof that the loop of \<open>http_process_connection\<close> follows it.
  Fork_Server: \<open>src/fork_server.c\<close> and the protocol of a session.
  Histories: every operation leaves the trace its kernel gave it (\<open>runs\<close>), so that a hypothesis on
  the kernel holds of the events of a run.
  Client_Session: a client that sends requests in any fragmentation is answered (\<open>client_is_served\<close>).
  Server: \<open>src/server.c\<close>.
  Main_Program: \<open>src/main.c\<close>; the parent as a transition system with its invariant, and the child.

  \<^bold>\<open>What the theorems show.\<close> The parser is memory safe on every input, equivalent to the grammar,
  independent of uninitialised memory, and inverse to the writing of requests. The response to a
  request is exactly the one the decision calls for; a connection answers its requests in order
  and in full, whatever the fragmentation and the failures, and breaks off only where the kernel
  refused a call; every loop returns. Where nothing is refused, a client that sends requests back
  to back receives all their answers, however the stream is cut into pieces. No request opens a
  file outside the document root or through a symbolic link, every failed open is reported with
  the error of the call that caused it, and no descriptor is leaked where the functions report
  success; the parent holds two descriptors whatever happens, and a signal reaps all children that
  have ended. A child whose client sends finitely many bytes ends, for every configuration the
  command line accepts. Header blocks always fit their buffer. Framing accepts
  only requests without a body. Configurations are within their ranges.

  \<^bold>\<open>Not modelled.\<close> Output to \<open>stdout\<close> and \<open>stderr\<close>; \<open>free\<close> beyond the null pointer it leaves; the
  death of a process by a signal (the server does not mask \<open>SIGPIPE\<close>, so that a send to a closed
  connection ends the child, which the model renders as a refused call); \<open>errno\<close> as changed by a
  signal handler; a signal that arrives inside a turn of the loop of \<open>main\<close> (the handler runs between
  two turns; its calls neither open nor close a descriptor); \<open>memset\<close> and the layout of
  \<open>struct sockaddr_in\<close> apart from the bytes of the port; the default branch of
  \<open>http_status_reason\<close>, since the status type is closed and no caller passes another value; the
  unreachable code behind the endless loop of \<open>main\<close>; the tests and benchmarks.
\<close>

section \<open>A client's request, end to end\<close>

lemma conversation_single:
  assumes "conversation cfg root fd s ev code close rest"
    and "header_end_spec s = Some (length s)"
  shows "code = -1 \<and> broken cfg root fd s ev \<or>
    code = 0 \<and> exchange cfg root fd s ev close \<and> rest = []"
  using assms
proof (cases rule: conversation.cases)
  case (continue e ev1 ev2)
  with assms(2) have "e = length s" "exchange cfg root fd s ev1 False"
    "conversation cfg root fd [] ev2 code close rest" by auto
  moreover from this(3) have "ev2 = []" "code = 0" "\<not> close" "rest = []"
    by (cases rule: conversation.cases; simp)+
  ultimately show ?thesis using continue by simp
qed auto

section \<open>Properties\<close>

text \<open>
  C4: The server as a whole answers what a client asks. When the buffer holds a request as a
  client writes it, with GET or HEAD, one \<open>Host\<close> for HTTP/1.1 and no body, the client receives
  exactly the answer to it: the header block and the bytes of the file that opening the decoded
  path yielded (headers only for HEAD), or the error page for the reason the file could not be
  opened. The request is used up, every file is closed, and only a refused call can prevent it.
\<close>

theorem request_answered:
  assumes "fair_kernel k" "http_config_valid (Some cfg)"
    and "\<forall>t. length (rq_headers (request0 t)) = HTTP_MAX_HEADERS"
    and "connection_inv c" "size_ok (cn_buffer_capacity c + 1)" "\<not> cn_close_connection c"
    and "connection_contents c = render_request w" "view_wf cfg w" "served_request w"
  shows "\<exists>code c' ev. http_process_connection k request0 (Some c) fd root (Some cfg) tr =
      Some (code, Some c', tr @ ev) \<and> confined [root] ev \<and>
    (code = 0 \<and> connection_contents c' = [] \<and> opened ev = closed ev \<and>
       (\<exists>fo. file_answer root (Serve w (wants_close w)) fo ev \<and>
          (\<forall>content. sent content fd ev = response_bytes content (Serve w (wants_close w)) fo) \<and>
          cn_close_connection c' = response_closes (Serve w (wants_close w)) fo) \<or>
     code = -1 \<and> list_ex (refused True) ev)"
proof -
  obtain code c' ev close where run: "http_process_connection k request0 (Some c) fd root (Some cfg) tr =
      Some (code, Some c', tr @ ev)"
    "conversation cfg root fd (render_request w) ev code close (connection_contents c')"
    "code = 0 \<longrightarrow> cn_close_connection c' = close"
    using http_process_connection_follows [OF assms(1-6), of fd root tr] assms(7) by auto
  note answer = decide_render [OF assms(8,9)]
  from conversation_single [OF run(2) render_request_end [OF assms(8)]]
  have "code = 0 \<and> connection_contents c' = [] \<and> opened ev = closed ev \<and>
       (\<exists>fo. file_answer root (Serve w (wants_close w)) fo ev \<and>
          (\<forall>content. sent content fd ev = response_bytes content (Serve w (wants_close w)) fo) \<and>
          cn_close_connection c' = response_closes (Serve w (wants_close w)) fo) \<or>
     code = -1 \<and> list_ex (refused True) ev"
    using run(3) by (auto simp: exchange_def broken_def answer)
  with run(1) conversation_confined [OF run(2)] show ?thesis by blast
qed

theorem request_answered_witness:
  "\<exists>code c' ev. http_process_connection example_kernel (\<lambda>t. blank_request) (Some example_ready) 5 4
      (Some example_config) [] = Some (code, Some c', [] @ ev) \<and> confined [4] ev \<and>
    (code = 0 \<and> connection_contents c' = [] \<and> opened ev = closed ev \<and>
       (\<exists>fo. file_answer 4 (Serve example_get (wants_close example_get)) fo ev \<and>
          (\<forall>content. sent content 5 ev = response_bytes content (Serve example_get (wants_close example_get)) fo) \<and>
          cn_close_connection c' = response_closes (Serve example_get (wants_close example_get)) fo) \<or>
     code = -1 \<and> list_ex (refused True) ev)"
  by (rule request_answered) (simp_all add: example_get_request)

text \<open>
  C13: Every child that the running server forks, in any reachable state and after any failures,
  ends once its client has sent all it will ever send: it serves its connection with files beneath
  the document root only and exits, and when it exits with success the only descriptor it has left
  open is the one of the document root. This holds for every configuration the command line
  accepts. A client that goes on sending requests for ever can keep its child alive.
\<close>

theorem server_children:
  assumes "parent_reachable kp server0 config0 argv s" "(client, ctr) \<in> set (ps_children s)"
    and "fair_kernel k" "recv_bounded k" "client_stops k client N"
    and "\<forall>t. length (rq_headers (request0 t)) = HTTP_MAX_HEADERS"
  shows "\<exists>status ev. main_child k request0 connection0 (ps_server s) (ps_config s) client ctr =
      Some (status, ctr @ ev) \<and> confined [sv_root_fd (ps_server s)] ev \<and>
    (status = EXIT_FAILURE \<or>
     status = EXIT_SUCCESS \<and> holds (ctr @ ev) {#sv_root_fd (ps_server s)#})"
proof -
  from parent_reachable_inv [OF assms(1)] have inv: "parent_inv s"
    and args: "config_parse_args (config_init config0) argv = (0, ps_config s)" by auto
  from args have "config_ranges (ps_config s)"
    using config_args_loop_ranges [OF config_init_ranges] by (auto simp: config_parse_args_def)
  moreover from inv assms(2) have "holds ctr {#client, sv_fd (ps_server s), sv_root_fd (ps_server s)#}"
    by (auto simp: parent_inv_def)
  ultimately show ?thesis using main_child_runs [OF assms(3,4) _ assms(6,5)] by blast
qed

theorem server_children_witness:
  "\<exists>(s :: parent_state) client ctr status ev. (client, ctr) \<in> set (ps_children s) \<and>
    main_child example_kernel (\<lambda>t. blank_request) example_connection (ps_server s) (ps_config s) client ctr =
      Some (status, ctr @ ev) \<and> confined [sv_root_fd (ps_server s)] ev"
proof -
  obtain tr client ctr where turn: "main_turn example_kernel (ps_server example_parent)
      (ps_config example_parent) (ps_trace example_parent) = (tr, Some (client, ctr))"
    by (simp add: main_turn_def server_accept_def sys_def)
  define s where "s = example_parent\<lparr>ps_trace := tr, ps_children := ps_children example_parent @ [(client, ctr)]\<rparr>"
  have "parent_step example_kernel example_parent s"
    unfolding s_def using turn by (rule parent_step.forked)
  note r = parent_reachable.step [OF example_reachable this]
  have m: "(client, ctr) \<in> set (ps_children s)" by (simp add: s_def)
  from server_children [OF r m example_fair example_recv_bounded example_client_stops,
      of "\<lambda>t. blank_request" example_connection] obtain status ev where
    "main_child example_kernel (\<lambda>t. blank_request) example_connection (ps_server s) (ps_config s) client ctr =
      Some (status, ctr @ ev)" "confined [sv_root_fd (ps_server s)] ev" by auto
  with m show ?thesis by blast
qed

end
